theory Spec2Isabelle
  imports Main
begin

section \<open>Strings of the monitor\<close>

text \<open>
  The monitor (\<^verbatim>\<open>src/index.ts\<close>) works on JavaScript strings, which are sequences
  of UTF-16 code units. This development represents a string by \<^typ>\<open>string\<close>, one
  \<^typ>\<open>char\<close> per code unit, the character with code \<open>n\<close> standing for the code unit
  U+00\<open>n\<close>: the texts it covers are those of the code units U+0000 to U+00FF (ASCII and
  Latin-1, which holds the accented letters of Portuguese). Texts with a code unit above
  U+00FF are outside the model. Wherever a library function leaves that range (the
  combining marks that \<^verbatim>\<open>normalize('NFD')\<close> produces, the escapes that
  \<^verbatim>\<open>JSON.parse\<close> decodes) the code units are natural numbers.
\<close>

definition unit :: "char \<Rightarrow> nat" where
  "unit c = of_char c"

text \<open>
  \<^verbatim>\<open>s.replace(/[...]/g, '')\<close> for a character class: the scan deletes every code
  unit of the class and keeps the others in order.
\<close>

primrec replace_class :: "('a \<Rightarrow> bool) \<Rightarrow> 'a list \<Rightarrow> 'a list" where
  "replace_class cls [] = []"
| "replace_class cls (u # us) =
     (if cls u then replace_class cls us else u # replace_class cls us)"

text \<open>
  \<^verbatim>\<open>s.substring(a, b)\<close>: a negative argument counts as 0, an argument beyond the
  length as the length, and the two are swapped when the first is the larger.
\<close>

definition substring :: "'a list \<Rightarrow> int \<Rightarrow> int \<Rightarrow> 'a list" where
  "substring s a b =
     (let a' = min (nat a) (length s); b' = min (nat b) (length s);
          lo = min a' b'; hi = max a' b'
      in take (hi - lo) (drop lo s))"

text \<open>
  \<^verbatim>\<open>s.toLowerCase()\<close> on the code units U+0000 to U+00FF: the letters A to Z and the
  Latin-1 capitals U+00C0 to U+00DE (the multiplication sign U+00D7 apart) move up by
  0x20; every other code unit stays.
\<close>

definition lowerUnit :: "char \<Rightarrow> char" where
  "lowerUnit c =
     (let n = unit c
      in if (0x41 \<le> n \<and> n \<le> 0x5A) \<or> (0xC0 \<le> n \<and> n \<le> 0xDE \<and> n \<noteq> 0xD7)
         then char_of (n + 0x20) else c)"

definition toLowerCase :: "string \<Rightarrow> string" where
  "toLowerCase s = map lowerUnit s"

text \<open>
  \<^verbatim>\<open>s.normalize('NFD')\<close>: the canonical decompositions of the Unicode Character
  Database for U+0000 to U+00FF. Each entry is (code unit, base letter, combining mark);
  a code unit without an entry is left as it is. A decomposition in this range is one
  base letter and one mark, so no reordering of marks takes place.
\<close>

definition nfd_table :: "(nat \<times> nat \<times> nat) list" where
  "nfd_table =
    [(0xC0, 0x41, 0x0300), (0xC1, 0x41, 0x0301), (0xC2, 0x41, 0x0302), (0xC3, 0x41, 0x0303), (0xC4, 0x41, 0x0308),
     (0xC5, 0x41, 0x030A), (0xC7, 0x43, 0x0327), (0xC8, 0x45, 0x0300), (0xC9, 0x45, 0x0301), (0xCA, 0x45, 0x0302),
     (0xCB, 0x45, 0x0308), (0xCC, 0x49, 0x0300), (0xCD, 0x49, 0x0301), (0xCE, 0x49, 0x0302), (0xCF, 0x49, 0x0308),
     (0xD1, 0x4E, 0x0303), (0xD2, 0x4F, 0x0300), (0xD3, 0x4F, 0x0301), (0xD4, 0x4F, 0x0302), (0xD5, 0x4F, 0x0303),
     (0xD6, 0x4F, 0x0308), (0xD9, 0x55, 0x0300), (0xDA, 0x55, 0x0301), (0xDB, 0x55, 0x0302), (0xDC, 0x55, 0x0308),
     (0xDD, 0x59, 0x0301), (0xE0, 0x61, 0x0300), (0xE1, 0x61, 0x0301), (0xE2, 0x61, 0x0302), (0xE3, 0x61, 0x0303),
     (0xE4, 0x61, 0x0308), (0xE5, 0x61, 0x030A), (0xE7, 0x63, 0x0327), (0xE8, 0x65, 0x0300), (0xE9, 0x65, 0x0301),
     (0xEA, 0x65, 0x0302), (0xEB, 0x65, 0x0308), (0xEC, 0x69, 0x0300), (0xED, 0x69, 0x0301), (0xEE, 0x69, 0x0302),
     (0xEF, 0x69, 0x0308), (0xF1, 0x6E, 0x0303), (0xF2, 0x6F, 0x0300), (0xF3, 0x6F, 0x0301), (0xF4, 0x6F, 0x0302),
     (0xF5, 0x6F, 0x0303), (0xF6, 0x6F, 0x0308), (0xF9, 0x75, 0x0300), (0xFA, 0x75, 0x0301), (0xFB, 0x75, 0x0302),
     (0xFC, 0x75, 0x0308), (0xFD, 0x79, 0x0301), (0xFF, 0x79, 0x0308)]"

definition decompose :: "char \<Rightarrow> nat list" where
  "decompose c =
     (case map_of nfd_table (unit c) of
        None \<Rightarrow> [unit c]
      | Some (base, mark) \<Rightarrow> [base, mark])"

definition normalize_NFD :: "string \<Rightarrow> nat list" where
  "normalize_NFD s = concat (map decompose s)"

section \<open>The identity of a record: gerarIdEstavel\<close>

text \<open>
  \<^verbatim>\<open>
  function gerarIdEstavel(fonteNome: string, titulo: string, prazo: string): string {
      const tituloLimpo = titulo
          .toLowerCase()
          .normalize('NFD').replace(/[\u0300-\u036f]/g, '')
          .replace(/[^a-z0-9]/g, '');
      const slugTitulo = tituloLimpo.substring(0, 60);
      const slugPrazo = prazo ? prazo.replace(/[^0-9]/g, '') : '0000';
      return `${fonteNome}-${slugTitulo}-${slugPrazo}`;
  }
  \<close>
  The three character classes of the regular expressions, on code units:
\<close>

definition combining_mark :: "nat \<Rightarrow> bool" where
  "combining_mark u = (0x0300 \<le> u \<and> u \<le> 0x036F)"

definition not_a_z_0_9 :: "nat \<Rightarrow> bool" where
  "not_a_z_0_9 u = (\<not> ((0x61 \<le> u \<and> u \<le> 0x7A) \<or> (0x30 \<le> u \<and> u \<le> 0x39)))"

definition not_0_9 :: "char \<Rightarrow> bool" where
  "not_0_9 c = (\<not> (0x30 \<le> unit c \<and> unit c \<le> 0x39))"

text \<open>
  The code units that are left of the title are all below U+0080, so they are written
  back as characters.
\<close>

definition tituloLimpo :: "string \<Rightarrow> string" where
  "tituloLimpo titulo =
     map char_of
       (replace_class not_a_z_0_9
          (replace_class combining_mark (normalize_NFD (toLowerCase titulo))))"

definition slugTitulo :: "string \<Rightarrow> string" where
  "slugTitulo titulo = substring (tituloLimpo titulo) 0 60"

text \<open>A string is falsy exactly when it is empty.\<close>

definition slugPrazo :: "string \<Rightarrow> string" where
  "slugPrazo prazo = (if prazo \<noteq> [] then replace_class not_0_9 prazo else ''0000'')"

definition gerarIdEstavel :: "string \<Rightarrow> string \<Rightarrow> string \<Rightarrow> string" where
  "gerarIdEstavel fonteNome titulo prazo =
     fonteNome @ ''-'' @ slugTitulo titulo @ ''-'' @ slugPrazo prazo"

section \<open>Values of the program: JSON.parse\<close>

text \<open>
  The records of the monitor are what \<^verbatim>\<open>JSON.parse\<close> returns, typed \<^verbatim>\<open>any\<close>. A
  number is kept exactly, as mantissa and decimal exponent (\<open>JNum m e\<close> is \<open>m * 10 ^ e\<close>);
  an object keeps its members in the order of the text. The type of the strings is a
  parameter: an escape \<^verbatim>\<open>\uXXXX\<close> of a text denotes any code unit up to U+FFFF, so
  the values of \<^verbatim>\<open>JSON.parse\<close> hold their strings as lists of code units
  (\<open>nat list json\<close>), whatever the text; the loop of \<^verbatim>\<open>main\<close> is followed on
  the values whose strings are within U+0000 to U+00FF (\<open>string json\<close>).
\<close>

datatype 's json =
    JNull
  | JBool bool
  | JNum int int
  | JStr 's
  | JArr "'s json list"
  | JObj "('s \<times> 's json) list"

datatype token =
    TLBrack | TRBrack | TLBrace | TRBrace | TComma | TColon
  | TString "nat list" | TNumber int int | TTrue | TFalse | TNull

definition json_ws :: "char \<Rightarrow> bool" where
  "json_ws c = (c = CHR '' '' \<or> c = CHR 0x09 \<or> c = CHR 0x0A \<or> c = CHR 0x0D)"

definition is_digit :: "char \<Rightarrow> bool" where
  "is_digit c = (0x30 \<le> unit c \<and> unit c \<le> 0x39)"

definition hex_digit :: "char \<Rightarrow> nat option" where
  "hex_digit c =
     (let n = unit c
      in if 0x30 \<le> n \<and> n \<le> 0x39 then Some (n - 0x30)
         else if 0x41 \<le> n \<and> n \<le> 0x46 then Some (n - 0x37)
         else if 0x61 \<le> n \<and> n \<le> 0x66 then Some (n - 0x57)
         else None)"

definition simple_escape :: "char \<Rightarrow> char option" where
  "simple_escape c =
     (if c = CHR 0x22 then Some (CHR 0x22)
      else if c = CHR 0x5C then Some (CHR 0x5C)
      else if c = CHR ''/'' then Some (CHR ''/'')
      else if c = CHR ''b'' then Some (CHR 0x08)
      else if c = CHR ''f'' then Some (CHR 0x0C)
      else if c = CHR ''n'' then Some (CHR 0x0A)
      else if c = CHR ''r'' then Some (CHR 0x0D)
      else if c = CHR ''t'' then Some (CHR 0x09)
      else None)"

text \<open>
  The characters of a string literal after its opening quote: the code units of the
  decoded string and the text after the closing quote. \<open>scan_escape\<close> reads what follows
  a backslash: one of the eight simple escapes, or \<^verbatim>\<open>u\<close> and four hexadecimal digits,
  which denote the code unit of that number (a surrogate is kept as it is). A control
  character, an unknown escape and a missing closing quote are syntax errors.
\<close>

definition scan_escape :: "string \<Rightarrow> (nat \<times> string) option" where
  "scan_escape s =
     (case s of
        [] \<Rightarrow> None
      | e # r \<Rightarrow>
          if e = CHR ''u'' then
            (case r of
               h1 # h2 # h3 # h4 # r' \<Rightarrow>
                 (case (hex_digit h1, hex_digit h2, hex_digit h3, hex_digit h4) of
                    (Some d1, Some d2, Some d3, Some d4) \<Rightarrow>
                      Some (4096 * d1 + 256 * d2 + 16 * d3 + d4, r')
                  | _ \<Rightarrow> None)
             | _ \<Rightarrow> None)
          else map_option (\<lambda>x. (unit x, r)) (simple_escape e))"

function scan_string :: "string \<Rightarrow> (nat list \<times> string) option" where
  "scan_string [] = None"
| "scan_string (c # cs) =
     (if c = CHR 0x22 then Some ([], cs)
      else if c = CHR 0x5C then
        (case scan_escape cs of
           None \<Rightarrow> None
         | Some (x, r) \<Rightarrow> map_option (\<lambda>(s, rest). (x # s, rest)) (scan_string r))
      else if unit c < 0x20 then None
      else map_option (\<lambda>(s, rest). (unit c # s, rest)) (scan_string cs))"
  by pat_completeness auto

lemma scan_escape_length: "scan_escape cs = Some (x, r) \<Longrightarrow> length r < length cs"
  by (auto simp: scan_escape_def split: list.splits if_splits option.splits)

termination scan_string
proof (relation "measure length")
qed (auto dest: scan_escape_length)

text \<open>
  A number: \<^verbatim>\<open>-? (0 | [1-9][0-9]*) (. [0-9]+)? ([eE] [+-]? [0-9]+)?\<close>. The result is the
  mantissa, the decimal exponent and the text after the number.
\<close>

definition digits_value :: "string \<Rightarrow> int" where
  "digits_value ds = foldl (\<lambda>acc d. 10 * acc + (int (unit d) - 0x30)) 0 ds"

definition scan_int :: "string \<Rightarrow> (string \<times> string) option" where
  "scan_int s =
     (let ip = takeWhile is_digit s
      in if ip = [] \<or> (hd ip = CHR ''0'' \<and> length ip > 1) then None
         else Some (ip, dropWhile is_digit s))"

definition scan_frac :: "string \<Rightarrow> (string \<times> string) option" where
  "scan_frac s =
     (if s \<noteq> [] \<and> hd s = CHR ''.'' then
        (let fp = takeWhile is_digit (tl s)
         in if fp = [] then None else Some (fp, dropWhile is_digit (tl s)))
      else Some ([], s))"

definition scan_exp :: "string \<Rightarrow> (int \<times> string) option" where
  "scan_exp s =
     (if s \<noteq> [] \<and> (hd s = CHR ''e'' \<or> hd s = CHR ''E'') then
        (let s1 = tl s;
             eneg = (s1 \<noteq> [] \<and> hd s1 = CHR ''-'');
             s2 = (if s1 \<noteq> [] \<and> (hd s1 = CHR ''-'' \<or> hd s1 = CHR ''+'') then tl s1 else s1);
             ep = takeWhile is_digit s2
         in if ep = [] then None
            else Some (if eneg then - digits_value ep else digits_value ep,
                       dropWhile is_digit s2))
      else Some (0, s))"

definition scan_number :: "string \<Rightarrow> (int \<times> int \<times> string) option" where
  "scan_number s =
     (let neg = (s \<noteq> [] \<and> hd s = CHR ''-'');
          s1 = (if neg then tl s else s)
      in case scan_int s1 of
           None \<Rightarrow> None
         | Some (ip, s2) \<Rightarrow>
             (case scan_frac s2 of
                None \<Rightarrow> None
              | Some (fp, s3) \<Rightarrow>
                  (case scan_exp s3 of
                     None \<Rightarrow> None
                   | Some (e, s4) \<Rightarrow>
                       Some (if neg then - digits_value (ip @ fp) else digits_value (ip @ fp),
                             e - int (length fp), s4))))"

text \<open>The tokens of a text; \<open>None\<close> when some character starts no token.\<close>

function lex :: "string \<Rightarrow> token list option" where
  "lex [] = Some []"
| "lex (c # cs) =
     (if json_ws c then lex cs
      else if c = CHR ''['' then map_option ((#) TLBrack) (lex cs)
      else if c = CHR '']'' then map_option ((#) TRBrack) (lex cs)
      else if c = CHR ''{'' then map_option ((#) TLBrace) (lex cs)
      else if c = CHR ''}'' then map_option ((#) TRBrace) (lex cs)
      else if c = CHR '','' then map_option ((#) TComma) (lex cs)
      else if c = CHR '':'' then map_option ((#) TColon) (lex cs)
      else if c = CHR 0x22 then
        (case scan_string cs of
           None \<Rightarrow> None
         | Some (s, rest) \<Rightarrow> map_option ((#) (TString s)) (lex rest))
      else if c = CHR ''-'' \<or> is_digit c then
        (case scan_number (c # cs) of
           None \<Rightarrow> None
         | Some (m, e, rest) \<Rightarrow> map_option ((#) (TNumber m e)) (lex rest))
      else if take 4 (c # cs) = ''true'' then map_option ((#) TTrue) (lex (drop 3 cs))
      else if take 5 (c # cs) = ''false'' then map_option ((#) TFalse) (lex (drop 4 cs))
      else if take 4 (c # cs) = ''null'' then map_option ((#) TNull) (lex (drop 3 cs))
      else None)"
  by pat_completeness auto

lemma scan_string_length: "scan_string cs = Some (s, rest) \<Longrightarrow> length rest < Suc (length cs)"
proof (induction cs arbitrary: s rest rule: scan_string.induct)
  case 1
  then show ?case by simp
next
  case (2 c cs)
  show ?case
  proof (cases "c = CHR 0x22")
    case True
    with "2.prems" show ?thesis by simp
  next
    case nq: False
    show ?thesis
    proof (cases "c = CHR 0x5C")
      case True
      with nq "2.prems" obtain x r s' where
        e: "scan_escape cs = Some (x, r)" and r: "scan_string r = Some (s', rest)"
        by (auto split: option.splits)
      from "2.IH"(1) [OF nq True e refl r] scan_escape_length [OF e] show ?thesis by simp
    next
      case nb: False
      with nq "2.prems" obtain s' where
        c: "\<not> unit c < 0x20" and r: "scan_string cs = Some (s', rest)"
        by (auto split: if_splits)
      from "2.IH"(2) [OF nq nb c r] show ?thesis by simp
    qed
  qed
qed

lemma length_dropWhile_less: "takeWhile P xs \<noteq> [] \<Longrightarrow> length (dropWhile P xs) < length xs"
  by (induction xs) (auto simp: less_Suc_eq_le length_dropWhile_le split: if_splits)

lemma scan_int_length: "scan_int s = Some (ip, r) \<Longrightarrow> length r < length s"
  by (auto simp: scan_int_def Let_def length_dropWhile_less split: if_splits)

lemma length_tl_le: "length (tl xs) \<le> length xs"
  by simp

lemma scan_frac_length: "scan_frac s = Some (fp, r) \<Longrightarrow> length r \<le> length s"
  by (auto simp: scan_frac_def Let_def split: if_splits
      intro: order_trans [OF length_dropWhile_le length_tl_le])

lemma scan_exp_length: "scan_exp s = Some (e, r) \<Longrightarrow> length r \<le> length s"
  by (auto simp: scan_exp_def Let_def split: if_splits
      intro: order_trans [OF length_dropWhile_le] order_trans [OF length_dropWhile_le length_tl_le]
             order_trans [OF length_dropWhile_le order_trans [OF length_tl_le length_tl_le]])

lemma scan_number_length: "scan_number s = Some (m, e, rest) \<Longrightarrow> length rest < length s"
proof -
  assume a: "scan_number s = Some (m, e, rest)"
  let ?s1 = "if s \<noteq> [] \<and> hd s = CHR ''-'' then tl s else s"
  from a obtain ip s2 fp s3 where
    i: "scan_int ?s1 = Some (ip, s2)" and f: "scan_frac s2 = Some (fp, s3)"
    and x: "\<exists>e'. scan_exp s3 = Some (e', rest)"
    by (auto simp: scan_number_def Let_def split: option.splits prod.splits)
  from x obtain e' where x': "scan_exp s3 = Some (e', rest)" by blast
  have "length rest \<le> length s3" using scan_exp_length [OF x'] .
  also have "\<dots> \<le> length s2" using scan_frac_length [OF f] .
  also have "\<dots> < length ?s1" using scan_int_length [OF i] .
  also have "\<dots> \<le> length s" by simp
  finally show ?thesis .
qed

termination lex
  apply (relation "measure length")
  apply (simp_all (no_asm))
  subgoal for c cs x2 s rest by (rule scan_string_length [of cs s rest]) simp
  subgoal for c cs x2 m x2' e rest using scan_number_length [of "c # cs" m e rest] by simp
  done

text \<open>
  The grammar of JSON over the tokens, as a pushdown automaton: the stack holds the
  arrays and objects that are open (their elements so far, last first) and the key
  whose value is awaited; \<open>expect\<close> says which tokens may come next.
\<close>

datatype frame =
  FArr "nat list json list" | FObj "(nat list \<times> nat list json) list" | FKey "nat list"

datatype expect =
  EValue | EValueOrEnd | EKeyOrEnd | EKey | EColon | EAfter | EDone "nat list json"

fun complete :: "nat list json \<Rightarrow> frame list \<Rightarrow> (expect \<times> frame list) option" where
  "complete v [] = Some (EDone v, [])"
| "complete v (FArr vs # st) = Some (EAfter, FArr (v # vs) # st)"
| "complete v (FKey k # FObj kvs # st) = Some (EAfter, FObj ((k, v) # kvs) # st)"
| "complete v _ = None"

definition close_array :: "frame list \<Rightarrow> (expect \<times> frame list) option" where
  "close_array st = (case st of FArr vs # st' \<Rightarrow> complete (JArr (rev vs)) st' | _ \<Rightarrow> None)"

definition close_object :: "frame list \<Rightarrow> (expect \<times> frame list) option" where
  "close_object st = (case st of FObj kvs # st' \<Rightarrow> complete (JObj (rev kvs)) st' | _ \<Rightarrow> None)"

definition value_token :: "bool \<Rightarrow> frame list \<Rightarrow> token \<Rightarrow> (expect \<times> frame list) option" where
  "value_token may_close st tok =
     (case tok of
        TString s \<Rightarrow> complete (JStr s) st
      | TNumber m e \<Rightarrow> complete (JNum m e) st
      | TTrue \<Rightarrow> complete (JBool True) st
      | TFalse \<Rightarrow> complete (JBool False) st
      | TNull \<Rightarrow> complete JNull st
      | TLBrack \<Rightarrow> Some (EValueOrEnd, FArr [] # st)
      | TLBrace \<Rightarrow> Some (EKeyOrEnd, FObj [] # st)
      | TRBrack \<Rightarrow> if may_close then close_array st else None
      | _ \<Rightarrow> None)"

definition step :: "expect \<Rightarrow> frame list \<Rightarrow> token \<Rightarrow> (expect \<times> frame list) option" where
  "step e st tok =
     (case e of
        EValue \<Rightarrow> value_token False st tok
      | EValueOrEnd \<Rightarrow> value_token True st tok
      | EKeyOrEnd \<Rightarrow>
          (case tok of
             TString k \<Rightarrow> Some (EColon, FKey k # st)
           | TRBrace \<Rightarrow> close_object st
           | _ \<Rightarrow> None)
      | EKey \<Rightarrow> (case tok of TString k \<Rightarrow> Some (EColon, FKey k # st) | _ \<Rightarrow> None)
      | EColon \<Rightarrow> (case tok of TColon \<Rightarrow> Some (EValue, st) | _ \<Rightarrow> None)
      | EAfter \<Rightarrow>
          (case tok of
             TComma \<Rightarrow>
               (case st of
                  FArr vs # st' \<Rightarrow> Some (EValue, st)
                | FObj kvs # st' \<Rightarrow> Some (EKey, st)
                | _ \<Rightarrow> None)
           | TRBrack \<Rightarrow> close_array st
           | TRBrace \<Rightarrow> close_object st
           | _ \<Rightarrow> None)
      | EDone v \<Rightarrow> None)"

fun run_tokens :: "expect \<Rightarrow> frame list \<Rightarrow> token list \<Rightarrow> nat list json option" where
  "run_tokens e st [] = (case e of EDone v \<Rightarrow> Some v | _ \<Rightarrow> None)"
| "run_tokens e st (tok # toks) =
     (case step e st tok of
        None \<Rightarrow> None
      | Some (e', st') \<Rightarrow> run_tokens e' st' toks)"

text \<open>\<^verbatim>\<open>JSON.parse(text)\<close>: the value, or \<open>None\<close> where it throws a SyntaxError.\<close>

definition JSON_parse :: "string \<Rightarrow> nat list json option" where
  "JSON_parse s = (case lex s of None \<Rightarrow> None | Some toks \<Rightarrow> run_tokens EValue [] toks)"

section \<open>Extraction: extrairJson\<close>

text \<open>
  \<^verbatim>\<open>
  function extrairJson(text: string): any[] {
      try {
          let limpo = text.replace(/```json/g, '').replace(/```/g, '').trim();
          const inicio = limpo.indexOf('[');
          const fim = limpo.lastIndexOf(']');
          if (inicio === -1 || fim === -1) return [];
          limpo = limpo.substring(inicio, fim + 1);
          return JSON.parse(limpo);
      } catch (e) {
          console.error("Erro ao parsear JSON:", e);
          return [];
      }
  }
  \<close>
  \<open>replace_all pat s\<close> is \<^verbatim>\<open>s.replace(/pat/g, '')\<close> for a pattern of literal characters:
  the scan goes from left to right, deletes a match and goes on after it.
\<close>

datatype error = TypeError | SyntaxError | SqliteConstraint

function replace_all :: "string \<Rightarrow> string \<Rightarrow> string" where
  "replace_all pat [] = []"
| "replace_all pat (c # cs) =
     (if pat \<noteq> [] \<and> take (length pat) (c # cs) = pat
      then replace_all pat (drop (length pat) (c # cs))
      else c # replace_all pat cs)"
  by pat_completeness auto
termination
  by (relation "measure (\<lambda>(pat, s). length s)") auto

text \<open>
  \<^verbatim>\<open>trim\<close> removes white space and line terminators from both ends; of the code units
  up to U+00FF these are U+0009 to U+000D, the space and the no-break space U+00A0.
\<close>

definition js_space :: "char \<Rightarrow> bool" where
  "js_space c = ((0x09 \<le> unit c \<and> unit c \<le> 0x0D) \<or> unit c = 0x20 \<or> unit c = 0xA0)"

definition trim :: "string \<Rightarrow> string" where
  "trim s = rev (dropWhile js_space (rev (dropWhile js_space s)))"

fun indexOf :: "string \<Rightarrow> char \<Rightarrow> int" where
  "indexOf [] c = - 1"
| "indexOf (x # xs) c =
     (if x = c then 0 else (let i = indexOf xs c in if i = - 1 then - 1 else i + 1))"

definition lastIndexOf :: "string \<Rightarrow> char \<Rightarrow> int" where
  "lastIndexOf s c =
     (let i = indexOf (rev s) c in if i = - 1 then - 1 else int (length s) - 1 - i)"

definition strip_fences :: "string \<Rightarrow> string" where
  "strip_fences text = trim (replace_all ''```'' (replace_all ''```json'' text))"

text \<open>
  The body of the \<^verbatim>\<open>try\<close> block, with the SyntaxError of \<^verbatim>\<open>JSON.parse\<close> as a value;
  the parser is a parameter (\<open>None\<close> where it throws). \<^verbatim>\<open>JSON.parse\<close> returns whatever
  value the slice denotes: the result is typed \<^verbatim>\<open>any[]\<close> but nothing checks that it is
  an array.
\<close>

definition extrairJson_try :: "(string \<Rightarrow> 's json option) \<Rightarrow> string \<Rightarrow> error + 's json" where
  "extrairJson_try parse text =
     (let limpo = strip_fences text;
          inicio = indexOf limpo (CHR ''['');
          fim = lastIndexOf limpo (CHR '']'')
      in if inicio = - 1 \<or> fim = - 1 then Inr (JArr [])
         else (case parse (substring limpo inicio (fim + 1)) of
                 None \<Rightarrow> Inl SyntaxError
               | Some v \<Rightarrow> Inr v))"

definition extrairJson :: "(string \<Rightarrow> 's json option) \<Rightarrow> string \<Rightarrow> error + 's json" where
  "extrairJson parse text =
     (case extrairJson_try parse text of
        Inl e \<Rightarrow> Inr (JArr [])
      | Inr v \<Rightarrow> Inr v)"

text \<open>
  \<^verbatim>\<open>consultarGemini\<close>: the call of the model is outside the program; its outcome is an
  input. The call may fail, the response may carry no text, or it carries a text.
  \<^verbatim>\<open>
      const text = response?.candidates?.[0]?.content?.parts?.[0]?.text;
      return text ? extrairJson(text) : [];
  } catch (e) { return []; }
  \<close>
\<close>

datatype resposta = ApiError | SemTexto | Texto string

definition consultarGemini :: "(string \<Rightarrow> 's json option) \<Rightarrow> resposta \<Rightarrow> 's json" where
  "consultarGemini parse r =
     (case r of
        ApiError \<Rightarrow> JArr []
      | SemTexto \<Rightarrow> JArr []
      | Texto text \<Rightarrow>
          if text = [] then JArr []
          else (case extrairJson parse text of Inl e \<Rightarrow> JArr [] | Inr v \<Rightarrow> v))"

section \<open>Reconciliation: the loop of main\<close>

text \<open>
  The values the loop handles are typed \<^verbatim>\<open>any\<close>: a JSON value, or \<^verbatim>\<open>undefined\<close>
  (\<open>None\<close>). \<open>getProp v key\<close> is \<^verbatim>\<open>v.key\<close> for a name that no built-in prototype defines
  (the loop reads \<^verbatim>\<open>titulo\<close> and \<^verbatim>\<open>prazo\<close>): it throws on \<^verbatim>\<open>null\<close>, is the
  member of that name of an object (the last one, when the text repeated the key) and is
  \<^verbatim>\<open>undefined\<close> otherwise.
\<close>

definition getProp :: "string json \<Rightarrow> string \<Rightarrow> error + string json option" where
  "getProp v key =
     (case v of
        JNull \<Rightarrow> Inl TypeError
      | JObj kvs \<Rightarrow> Inr (map_of (rev kvs) key)
      | _ \<Rightarrow> Inr None)"

text \<open>
  A number is falsy when it is zero as a double: \<open>m * 10 ^ e\<close> rounds to zero exactly
  when its magnitude is at most \<open>2 ^ -1075\<close>, half of the smallest positive double.
\<close>

definition rounds_to_zero :: "int \<Rightarrow> int \<Rightarrow> bool" where
  "rounds_to_zero m e = (m = 0 \<or> (e < 0 \<and> \<bar>m\<bar> * 2 ^ 1075 \<le> 10 ^ nat (- e)))"

fun truthy :: "string json option \<Rightarrow> bool" where
  "truthy None = False"
| "truthy (Some JNull) = False"
| "truthy (Some (JBool b)) = b"
| "truthy (Some (JNum m e)) = (\<not> rounds_to_zero m e)"
| "truthy (Some (JStr s)) = (s \<noteq> [])"
| "truthy (Some (JArr xs)) = True"
| "truthy (Some (JObj kvs)) = True"

text \<open>
  The call \<^verbatim>\<open>gerarIdEstavel(grupo.fonte.nome, item.titulo, item.prazo)\<close> on values typed
  \<^verbatim>\<open>any\<close>: \<^verbatim>\<open>titulo.toLowerCase\<close> is a function only on a string, and so is
  \<^verbatim>\<open>prazo.replace\<close>, which is called when \<^verbatim>\<open>prazo\<close> is truthy. A falsy
  \<^verbatim>\<open>prazo\<close> of any type takes the branch of the empty string.
\<close>

definition gerarIdEstavel_any ::
  "string \<Rightarrow> string json option \<Rightarrow> string json option \<Rightarrow> error + string" where
  "gerarIdEstavel_any fonteNome titulo prazo =
     (case titulo of
        Some (JStr t) \<Rightarrow>
          if \<not> truthy prazo then Inr (gerarIdEstavel fonteNome t [])
          else (case prazo of
                  Some (JStr p) \<Rightarrow> Inr (gerarIdEstavel fonteNome t p)
                | _ \<Rightarrow> Inl TypeError)
      | _ \<Rightarrow> Inl TypeError)"

record fonte =
  nome :: string
  url :: string
  cor :: string

text \<open>
  A row of the table \<^verbatim>\<open>oportunidades\<close> (\<^verbatim>\<open>id TEXT PRIMARY KEY, projeto, prazo, fonte\<close>;
  the column \<^verbatim>\<open>data_detectada\<close>, the time of the insertion, is left out) and a new
  record of the run (\<^verbatim>\<open>interface Oportunidade\<close>).
\<close>

record row =
  col_id :: string
  col_projeto :: string
  col_prazo :: "string json option"
  col_fonte :: string

record oportunidade =
  id_unico :: string
  titulo_op :: string
  prazo_op :: "string json option"
  fonte_nome :: string
  fonte_url :: string
  cor_op :: string

record estado =
  db :: "row list"
  novasOportunidades :: "oportunidade list"

datatype run = Completed estado | Crashed error estado

text \<open>
  \<^verbatim>\<open>db.get('SELECT id FROM oportunidades WHERE id = ?', idUnico)\<close> and
  \<^verbatim>\<open>db.run('INSERT INTO oportunidades (id, projeto, prazo, fonte) VALUES (?, ?, ?, ?)', ...)\<close>;
  the primary key refuses a second row with the same id.
\<close>

definition db_get :: "row list \<Rightarrow> string \<Rightarrow> row option" where
  "db_get rows i = find (\<lambda>r. col_id r = i) rows"

definition db_run :: "row list \<Rightarrow> row \<Rightarrow> error + row list" where
  "db_run rows r =
     (if col_id r \<in> set (map col_id rows) then Inl SqliteConstraint else Inr (rows @ [r]))"

text \<open>
  The body of the inner loop:
  \<^verbatim>\<open>
  if (!item.titulo) continue;
  const idUnico = gerarIdEstavel(grupo.fonte.nome, item.titulo, item.prazo);
  const existe = await db.get('SELECT id FROM oportunidades WHERE id = ?', idUnico);
  if (!existe) {
      await db.run('INSERT INTO oportunidades ...', idUnico, item.titulo, item.prazo, grupo.fonte.nome);
      novasOportunidades.push({ id_unico: idUnico, titulo: item.titulo, prazo: item.prazo,
          fonte_nome: grupo.fonte.nome, fonte_url: grupo.fonte.url, cor: grupo.fonte.cor });
  }
  \<close>
\<close>

definition processarItem :: "fonte \<Rightarrow> string json \<Rightarrow> estado \<Rightarrow> run" where
  "processarItem f item st =
     (case getProp item ''titulo'' of
        Inl e \<Rightarrow> Crashed e st
      | Inr titulo \<Rightarrow>
          if \<not> truthy titulo then Completed st
          else (case getProp item ''prazo'' of
                  Inl e \<Rightarrow> Crashed e st
                | Inr prazo \<Rightarrow>
                    (case gerarIdEstavel_any (nome f) titulo prazo of
                       Inl e \<Rightarrow> Crashed e st
                     | Inr idUnico \<Rightarrow>
                         (case db_get (db st) idUnico of
                            Some existe \<Rightarrow> Completed st
                          | None \<Rightarrow>
                              (case titulo of
                                 Some (JStr t) \<Rightarrow>
                                   (case db_run (db st)
                                           \<lparr>col_id = idUnico, col_projeto = t, col_prazo = prazo,
                                            col_fonte = nome f\<rparr> of
                                      Inl e \<Rightarrow> Crashed e st
                                    | Inr rows \<Rightarrow>
                                        Completed
                                          \<lparr>db = rows,
                                           novasOportunidades = novasOportunidades st @
                                             [\<lparr>id_unico = idUnico, titulo_op = t, prazo_op = prazo,
                                               fonte_nome = nome f, fonte_url = url f,
                                               cor_op = cor f\<rparr>]\<rparr>)
                               | _ \<Rightarrow> Crashed TypeError st)))))"

text \<open>\<^verbatim>\<open>for (const item of grupo.dados)\<close>, from a given state.\<close>

fun processarGrupo :: "fonte \<Rightarrow> string json list \<Rightarrow> estado \<Rightarrow> run" where
  "processarGrupo f [] st = Completed st"
| "processarGrupo f (item # itens) st =
     (case processarItem f item st of
        Crashed e st' \<Rightarrow> Crashed e st'
      | Completed st' \<Rightarrow> processarGrupo f itens st')"

text \<open>
  \<^verbatim>\<open>for ... of\<close> takes the elements of an array and the characters of a string; any
  other value of \<^verbatim>\<open>JSON.parse\<close> is not iterable and the loop throws.
\<close>

definition iterate :: "string json \<Rightarrow> error + string json list" where
  "iterate v =
     (case v of
        JArr xs \<Rightarrow> Inr xs
      | JStr s \<Rightarrow> Inr (map (\<lambda>c. JStr [c]) s)
      | _ \<Rightarrow> Inl TypeError)"

text \<open>\<^verbatim>\<open>for (const grupo of todosResultados)\<close>.\<close>

fun processarTodos :: "(fonte \<times> string json) list \<Rightarrow> estado \<Rightarrow> run" where
  "processarTodos [] st = Completed st"
| "processarTodos ((f, dados) # grupos) st =
     (case iterate dados of
        Inl e \<Rightarrow> Crashed e st
      | Inr itens \<Rightarrow>
          (case processarGrupo f itens st of
             Crashed e st' \<Rightarrow> Crashed e st'
           | Completed st' \<Rightarrow> processarTodos grupos st'))"

section \<open>The run: main\<close>

definition FONTE_IPEA :: fonte where
  "FONTE_IPEA = \<lparr>nome = ''IPEA'', url = ''https://www.ipea.gov.br/portal/bolsas-de-pesquisa'',
     cor = ''#2980b9''\<rparr>"

definition FONTE_FNP :: fonte where
  "FONTE_FNP = \<lparr>nome = ''FNP'', url = ''https://fnp.org.br/transparencia/documentos?cat=37'',
     cor = ''#e67e22''\<rparr>"

definition FONTE_UNDP :: fonte where
  "FONTE_UNDP = \<lparr>nome = ''UNDP'', url = ''https://parceiros.undp.org.br/opportunities'',
     cor = ''#27ae60''\<rparr>"

definition FONTE_ICLEI :: fonte where
  "FONTE_ICLEI = \<lparr>nome = ''ICLEI'',
     url = ''https://americadosul.iclei.org/trabalhe-conosco/?cat=15'', cor = ''#8e44ad''\<rparr>"

text \<open>
  The environment variables that \<^verbatim>\<open>enviarEmailResumo\<close> reads, and what the run does
  to the outside: a call of \<^verbatim>\<open>enviarEmailResumo\<close> (the composer) and a call of
  \<^verbatim>\<open>transporter.sendMail\<close> (the channel). The message keeps the sender, the recipient
  and the records it lists; its HTML markup is not modelled. Whether the channel
  delivers the message changes nothing in the run (the failure is caught and logged).
\<close>

record ambiente =
  EMAIL_USER :: "string option"
  EMAIL_TO :: "string option"

record mail =
  mail_from :: string
  mail_to :: string
  mail_itens :: "oportunidade list"

datatype evento = Chamada_enviarEmailResumo "oportunidade list" | Chamada_sendMail mail

text \<open>
  \<^verbatim>\<open>
  async function enviarEmailResumo(oportunidades: Oportunidade[]) {
      if (!process.env.EMAIL_USER || !process.env.EMAIL_TO) return;
      ...
      try { await transporter.sendMail(mailOptions); } catch (error) { ... }
  }
  \<close>
  A variable is falsy when it is not set or empty.
\<close>

definition env_falsy :: "string option \<Rightarrow> bool" where
  "env_falsy v = (case v of None \<Rightarrow> True | Some s \<Rightarrow> s = [])"

definition enviarEmailResumo :: "ambiente \<Rightarrow> oportunidade list \<Rightarrow> evento list" where
  "enviarEmailResumo env oportunidades =
     (if env_falsy (EMAIL_USER env) \<or> env_falsy (EMAIL_TO env) then []
      else [Chamada_sendMail
              \<lparr>mail_from = ''\"Monitor de Editais\" <'' @ the (EMAIL_USER env) @ ''>'',
               mail_to = the (EMAIL_TO env), mail_itens = oportunidades\<rparr>])"

text \<open>
  \<^verbatim>\<open>main\<close>: the four answers of the model and the rows of the table at the start are
  the inputs; the result is the outcome of the loop and the calls made after it.
  \<^verbatim>\<open>
  if (novasOportunidades.length > 0) {
      await enviarEmailResumo(novasOportunidades);
  } else { console.log("Nenhuma alteracao detectada."); }
  \<close>
  An exception of the loop leaves \<^verbatim>\<open>main\<close> at once: nothing is sent.
\<close>

definition main ::
  "(string \<Rightarrow> string json option) \<Rightarrow> ambiente \<Rightarrow> resposta \<Rightarrow> resposta \<Rightarrow> resposta \<Rightarrow> resposta \<Rightarrow>
     row list \<Rightarrow> run \<times> evento list" where
  "main parse env rIPEA rFNP rUNDP rICLEI rows =
     (let todosResultados =
            [(FONTE_IPEA, consultarGemini parse rIPEA), (FONTE_FNP, consultarGemini parse rFNP),
             (FONTE_UNDP, consultarGemini parse rUNDP), (FONTE_ICLEI, consultarGemini parse rICLEI)]
      in case processarTodos todosResultados \<lparr>db = rows, novasOportunidades = []\<rparr> of
           Crashed e st \<Rightarrow> (Crashed e st, [])
         | Completed st \<Rightarrow>
             (Completed st,
              if length (novasOportunidades st) > 0
              then Chamada_enviarEmailResumo (novasOportunidades st) #
                   enviarEmailResumo env (novasOportunidades st)
              else []))"

text \<open>
  The parser of \<open>main\<close> returns values of the loop. \<open>latin1\<close> reads a value of
  \<^verbatim>\<open>JSON.parse\<close> as a value of the loop when all its strings are within U+0000 to
  U+00FF; it has no result for a value that holds a code unit beyond.
\<close>

definition latin1_string :: "nat list \<Rightarrow> string option" where
  "latin1_string us = (if list_all (\<lambda>u. u < 256) us then Some (map char_of us) else None)"

definition latin1_member ::
  "nat list \<times> string json option \<Rightarrow> (string \<times> string json) option" where
  "latin1_member kv =
     (case (latin1_string (fst kv), snd kv) of
        (Some k, Some v) \<Rightarrow> Some (k, v)
      | _ \<Rightarrow> None)"

primrec latin1 :: "nat list json \<Rightarrow> string json option" where
  "latin1 JNull = Some JNull"
| "latin1 (JBool b) = Some (JBool b)"
| "latin1 (JNum m e) = Some (JNum m e)"
| "latin1 (JStr us) = map_option JStr (latin1_string us)"
| "latin1 (JArr vs) = map_option JArr (those (map latin1 vs))"
| "latin1 (JObj kvs) =
     map_option JObj (those (map latin1_member (map (map_prod id latin1) kvs)))"

section \<open>What the statements about titles and deadlines mean\<close>

text \<open>
  White space and punctuation, for the statement that a title does not depend on them:
  the white space, the punctuation marks and the symbols of ASCII and of Latin-1. Two
  texts differ only in such characters when they are equal once these are removed.
\<close>

definition separador :: "char \<Rightarrow> bool" where
  "separador c =
     (let n = unit c
      in (0x09 \<le> n \<and> n \<le> 0x0D) \<or> (0x20 \<le> n \<and> n \<le> 0x2F) \<or> (0x3A \<le> n \<and> n \<le> 0x40)
         \<or> (0x5B \<le> n \<and> n \<le> 0x60) \<or> (0x7B \<le> n \<and> n \<le> 0x7E)
         \<or> (0xA0 \<le> n \<and> n \<le> 0xBF \<and> n \<noteq> 0xAA \<and> n \<noteq> 0xB5 \<and> n \<noteq> 0xBA)
         \<or> n = 0xD7 \<or> n = 0xF7)"

definition sem_separadores :: "string \<Rightarrow> string" where
  "sem_separadores s = filter (\<lambda>c. \<not> separador c) s"

text \<open>
  Two letters differ only in case and accent when they have the same base letter once
  lowered: the first code unit of the canonical decomposition of the lower-case letter.
  Two titles differ only in case, punctuation, white space and accents when they have
  the same sequence of base letters once the separators are removed.
\<close>

definition letra_base :: "char \<Rightarrow> nat" where
  "letra_base c = hd (decompose (lowerUnit c))"

definition dobra :: "string \<Rightarrow> nat list" where
  "dobra t = map letra_base (sem_separadores t)"


section \<open>Properties of gerarIdEstavel\<close>

lemma replace_class_filter: "replace_class cls us = filter (\<lambda>u. \<not> cls u) us"
  by (induction us) simp_all

lemma substring_0: "substring s 0 (int n) = take n s"
  by (simp add: substring_def Let_def min_def max_def)

lemma slugTitulo_take: "slugTitulo t = take 60 (tituloLimpo t)"
  using substring_0 [of "tituloLimpo t" 60] by (simp add: slugTitulo_def)

lemma char_of_unit [simp]: "char_of (unit c) = c"
  by (simp add: unit_def)

lemma unit_less_256: "unit c < 256"
  by (simp add: unit_def)

lemma char_of_digits:
  "char_of (48::nat) = CHR ''0''" "char_of (49::nat) = CHR ''1''" "char_of (50::nat) = CHR ''2''"
  "char_of (51::nat) = CHR ''3''" "char_of (52::nat) = CHR ''4''" "char_of (53::nat) = CHR ''5''"
  "char_of (54::nat) = CHR ''6''" "char_of (55::nat) = CHR ''7''" "char_of (56::nat) = CHR ''8''"
  "char_of (57::nat) = CHR ''9''"
  by (simp_all add: char_of_def bit_iff_odd)

lemma not_0_9_iff: "not_0_9 c \<longleftrightarrow> c \<notin> set ''0123456789''"
proof
  assume "not_0_9 c"
  then show "c \<notin> set ''0123456789''"
    by (auto simp: not_0_9_def unit_def)
next
  assume a: "c \<notin> set ''0123456789''"
  show "not_0_9 c"
  proof (rule ccontr)
    assume "\<not> not_0_9 c"
    then have "48 \<le> unit c \<and> unit c \<le> 57"
      by (simp add: not_0_9_def)
    then have "unit c \<in> {48, 49, 50, 51, 52, 53, 54, 55, 56, 57}"
      by (simp del: char_of_unit) arith
    then have "char_of (unit c) \<in> set ''0123456789''"
      by (auto simp: char_of_digits simp del: char_of_unit)
    with a show False by simp
  qed
qed

lemma slugPrazo_filter:
  "slugPrazo d = (if d = [] then ''0000'' else filter (\<lambda>c. c \<in> set ''0123456789'') d)"
  by (simp add: slugPrazo_def replace_class_filter not_0_9_iff)


lemma nfd_table_Some:
  "map_of nfd_table n = Some (b, m) \<Longrightarrow>
     0xC0 \<le> n \<and> n \<noteq> 0xD7 \<and> n \<noteq> 0xF7 \<and> combining_mark m \<and> \<not> combining_mark b"
  by (simp add: nfd_table_def combining_mark_def split: if_splits)

lemma unit_char_of: "n < 256 \<Longrightarrow> unit (char_of n) = n"
  by (simp add: unit_def)

lemma decompose_marks:
  "replace_class combining_mark (decompose x) = [hd (decompose x)]"
proof (cases "map_of nfd_table (unit x)")
  case None
  have "unit x < 256" by (rule unit_less_256)
  then have "\<not> combining_mark (unit x)" by (simp add: combining_mark_def)
  with None show ?thesis by (simp add: decompose_def)
next
  case (Some p)
  obtain b m where p: "p = (b, m)" by (cases p)
  from nfd_table_Some [of "unit x" b m] Some p
  have "combining_mark m" "\<not> combining_mark b" by simp_all
  with Some p show ?thesis by (simp add: decompose_def)
qed

lemma separador_lower: "separador c \<Longrightarrow> lowerUnit c = c"
  by (auto simp: separador_def lowerUnit_def Let_def)

lemma separador_decompose: "separador c \<Longrightarrow> decompose c = [unit c]"
proof -
  assume s: "separador c"
  have "map_of nfd_table (unit c) = None"
  proof (cases "map_of nfd_table (unit c)")
    case None then show ?thesis .
  next
    case (Some p)
    obtain b m where p: "p = (b, m)" by (cases p)
    from nfd_table_Some [of "unit c" b m] Some p
    have "0xC0 \<le> unit c \<and> unit c \<noteq> 0xD7 \<and> unit c \<noteq> 0xF7" by simp
    with s show ?thesis by (auto simp: separador_def Let_def)
  qed
  then show ?thesis by (simp add: decompose_def)
qed

lemma separador_dropped: "separador c \<Longrightarrow> tituloLimpo [c] = []"
proof -
  assume s: "separador c"
  then have "not_a_z_0_9 (unit c)"
    by (auto simp: separador_def not_a_z_0_9_def Let_def)
  with s show ?thesis
    by (simp add: tituloLimpo_def toLowerCase_def normalize_NFD_def separador_lower
        separador_decompose combining_mark_def unit_less_256 [of c, simplified])
qed

lemma tituloLimpo_Cons: "tituloLimpo (c # cs) = tituloLimpo [c] @ tituloLimpo cs"
  by (simp add: tituloLimpo_def toLowerCase_def normalize_NFD_def replace_class_filter)

lemma tituloLimpo_char:
  "tituloLimpo [c] = map char_of (replace_class not_a_z_0_9 [letra_base c])"
  by (simp add: tituloLimpo_def toLowerCase_def normalize_NFD_def decompose_marks letra_base_def)

lemma tituloLimpo_dobra:
  "tituloLimpo t = map char_of (replace_class not_a_z_0_9 (dobra t))"
proof (induction t)
  case Nil
  show ?case by (simp add: tituloLimpo_def dobra_def sem_separadores_def toLowerCase_def normalize_NFD_def)
next
  case (Cons c t)
  show ?case
  proof (cases "separador c")
    case True
    with Cons show ?thesis
      using tituloLimpo_Cons [of c t] by (simp add: separador_dropped dobra_def sem_separadores_def)
  next
    case False
    with Cons show ?thesis
      using tituloLimpo_Cons [of c t] tituloLimpo_char [of c]
      by (simp add: dobra_def sem_separadores_def replace_class_filter)
  qed
qed

lemma separador_not_digit: "separador c \<Longrightarrow> c \<notin> set ''0123456789''"
  by (auto simp: separador_def Let_def unit_def)

lemma digits_sem_separadores:
  "filter (\<lambda>c. c \<in> set ''0123456789'') (sem_separadores d) = filter (\<lambda>c. c \<in> set ''0123456789'') d"
  unfolding sem_separadores_def filter_filter
  by (rule filter_cong [OF refl]) (use separador_not_digit in blast)

lemmas eval_unit = unit_def char_of_def bit_iff_odd

lemmas eval_id = gerarIdEstavel_def slugTitulo_def slugPrazo_def tituloLimpo_def substring_def
  toLowerCase_def normalize_NFD_def decompose_def nfd_table_def lowerUnit_def not_0_9_def
  not_a_z_0_9_def combining_mark_def Let_def

lemmas eval_dobra = dobra_def sem_separadores_def separador_def letra_base_def decompose_def
  nfd_table_def lowerUnit_def Let_def

lemma tituloLimpo_edital: "tituloLimpo ''Edital 01/2025'' = ''edital012025''"
  by (simp add: eval_id eval_unit)

text \<open>
  C3, as amended. For every source name, gerarIdEstavel yields equal identities for two
  titles that differ only in case, punctuation, white space or accents and two
  deadlines that differ only in separator characters, provided the two deadlines are
  both empty or both non-empty. (The example of the specification is the witness.)
\<close>

theorem C3_normalization:
  assumes "dobra t1 = dobra t2"
    and "sem_separadores d1 = sem_separadores d2"
    and "(d1 = []) = (d2 = [])"
  shows "gerarIdEstavel s t1 d1 = gerarIdEstavel s t2 d2"
proof -
  have t: "tituloLimpo t1 = tituloLimpo t2"
    using assms(1) by (simp add: tituloLimpo_dobra)
  have "filter (\<lambda>c. c \<in> set ''0123456789'') d1 = filter (\<lambda>c. c \<in> set ''0123456789'') d2"
    using assms(2) digits_sem_separadores [of d1] digits_sem_separadores [of d2] by simp
  with assms(3) have "slugPrazo d1 = slugPrazo d2"
    by (simp add: slugPrazo_filter)
  with t show ?thesis
    by (simp add: gerarIdEstavel_def slugTitulo_def)
qed

theorem C3_normalization_witness:
  "gerarIdEstavel ''X'' ''Edital 01/2025'' ''15/12/2025'' =
   gerarIdEstavel ''X'' ''  EDITAL 01/2025!! '' ''15-12-2025''"
proof -
  have t: "dobra ''Edital 01/2025'' = dobra ''  EDITAL 01/2025!! ''"
    by (simp add: eval_dobra eval_unit)
  have d: "sem_separadores ''15/12/2025'' = sem_separadores ''15-12-2025''"
    by (simp add: sem_separadores_def separador_def eval_unit)
  show ?thesis
    by (rule C3_normalization [OF t d]) simp
qed

text \<open>
  C3 as stated fails where one deadline is empty: the empty deadline and the deadline
  \<open>-\<close> differ only in a separator character, and the identities differ, since the
  placeholder \<open>0000\<close> stands for the empty deadline only.
\<close>

theorem C3_counterexample:
  "sem_separadores '''' = sem_separadores ''-'' \<and>
   gerarIdEstavel ''X'' ''Edital 01/2025'' '''' = ''X-edital012025-0000'' \<and>
   gerarIdEstavel ''X'' ''Edital 01/2025'' ''-'' = ''X-edital012025-'' \<and>
   gerarIdEstavel ''X'' ''Edital 01/2025'' '''' \<noteq> gerarIdEstavel ''X'' ''Edital 01/2025'' ''-''"
  by (simp add: sem_separadores_def separador_def gerarIdEstavel_def slugTitulo_take
      slugPrazo_filter tituloLimpo_edital eval_unit)

text \<open>
  C4. With the title and the deadline fixed, two different source names give different
  identities; with the source name and the deadline fixed, the identities differ exactly
  when the first 60 characters of the normalized titles differ (so two titles whose
  normalized forms agree on the first 60 characters have the same identity).
\<close>

theorem C4_distinctness:
  "(s1 \<noteq> s2 \<longrightarrow> gerarIdEstavel s1 t d \<noteq> gerarIdEstavel s2 t d) \<and>
   ((take 60 (tituloLimpo t1) \<noteq> take 60 (tituloLimpo t2)) =
    (gerarIdEstavel s t1 d \<noteq> gerarIdEstavel s t2 d))"
proof -
  have "gerarIdEstavel s1 t d = s1 @ (''-'' @ slugTitulo t @ ''-'' @ slugPrazo d)"
       "gerarIdEstavel s2 t d = s2 @ (''-'' @ slugTitulo t @ ''-'' @ slugPrazo d)"
    by (simp_all add: gerarIdEstavel_def)
  then have a: "s1 \<noteq> s2 \<longrightarrow> gerarIdEstavel s1 t d \<noteq> gerarIdEstavel s2 t d"
    by simp
  have b: "(gerarIdEstavel s t1 d = gerarIdEstavel s t2 d) =
           (take 60 (tituloLimpo t1) = take 60 (tituloLimpo t2))"
    by (simp add: gerarIdEstavel_def slugTitulo_take)
  from a b show ?thesis by blast
qed

theorem C4_distinctness_witness:
  "gerarIdEstavel ''IPEA'' ''Edital 01/2025'' ''15/12/2025'' \<noteq>
     gerarIdEstavel ''FNP'' ''Edital 01/2025'' ''15/12/2025'' \<and>
   gerarIdEstavel ''IPEA'' ''Edital 01/2025'' ''15/12/2025'' \<noteq>
     gerarIdEstavel ''IPEA'' ''Edital 02'' ''15/12/2025''"
proof -
  have "tituloLimpo ''Edital 02'' = ''edital02''"
    by (simp add: eval_id eval_unit)
  then have "take 60 (tituloLimpo ''Edital 01/2025'') \<noteq> take 60 (tituloLimpo ''Edital 02'')"
    by (simp add: tituloLimpo_edital)
  then show ?thesis
    using C4_distinctness [of "''IPEA''" "''FNP''" "''Edital 01/2025''" "''15/12/2025''"
        "''Edital 01/2025''" "''Edital 02''" "''IPEA''"]
    by simp
qed

text \<open>
  C8. For every deadline, the deadline component of the identity (what follows the
  second separator) is the deadline with only its digit characters kept, in order, and
  is the placeholder \<open>0000\<close> when the deadline is empty; the identity is defined in both
  cases.
\<close>

theorem C8_deadline:
  "gerarIdEstavel s t d =
     s @ ''-'' @ take 60 (tituloLimpo t) @ ''-'' @
       (if d = [] then ''0000'' else filter (\<lambda>c. c \<in> set ''0123456789'') d)"
  by (simp add: gerarIdEstavel_def slugTitulo_take slugPrazo_filter)

theorem C8_deadline_witness:
  "gerarIdEstavel ''IPEA'' ''Edital 01/2025'' '''' = ''IPEA-edital012025-0000'' \<and>
   gerarIdEstavel ''IPEA'' ''Edital 01/2025'' ''Publ. 10/11/2025'' = ''IPEA-edital012025-10112025''"
  using C8_deadline [of "''IPEA''" "''Edital 01/2025''" "''''"]
    C8_deadline [of "''IPEA''" "''Edital 01/2025''" "''Publ. 10/11/2025''"]
  by (simp add: tituloLimpo_edital)

text \<open>
  C10. Two non-empty deadlines with the same digit characters in the same order (also
  when neither has a digit) give the same identity under the same source and title; a
  non-empty deadline without digits has the empty deadline component, and its identity
  differs from that of the empty deadline, whose component is \<open>0000\<close>.
\<close>

theorem C10_digits:
  "(d1 \<noteq> [] \<and> d2 \<noteq> [] \<and>
      filter (\<lambda>c. c \<in> set ''0123456789'') d1 = filter (\<lambda>c. c \<in> set ''0123456789'') d2
      \<longrightarrow> gerarIdEstavel s t d1 = gerarIdEstavel s t d2) \<and>
   (d \<noteq> [] \<and> filter (\<lambda>c. c \<in> set ''0123456789'') d = []
      \<longrightarrow> gerarIdEstavel s t d = s @ ''-'' @ take 60 (tituloLimpo t) @ ''-'' \<and>
          gerarIdEstavel s t d \<noteq> gerarIdEstavel s t [])"
  by (simp add: gerarIdEstavel_def slugTitulo_take slugPrazo_filter)

theorem C10_digits_witness:
  "gerarIdEstavel ''IPEA'' ''Edital 01/2025'' ''15/12/2025'' =
     gerarIdEstavel ''IPEA'' ''Edital 01/2025'' ''Prazo: 15.12.2025'' \<and>
   gerarIdEstavel ''IPEA'' ''Edital 01/2025'' ''a definir'' = ''IPEA-edital012025-'' \<and>
   gerarIdEstavel ''IPEA'' ''Edital 01/2025'' ''a definir'' \<noteq>
     gerarIdEstavel ''IPEA'' ''Edital 01/2025'' ''''"
proof -
  note c = C10_digits [of "''15/12/2025''" "''Prazo: 15.12.2025''" "''IPEA''" "''Edital 01/2025''"
      "''a definir''"]
  have 1: "gerarIdEstavel ''IPEA'' ''Edital 01/2025'' ''15/12/2025'' =
     gerarIdEstavel ''IPEA'' ''Edital 01/2025'' ''Prazo: 15.12.2025''"
    using c [THEN conjunct1] by simp
  have h: "''a definir'' \<noteq> [] \<and> filter (\<lambda>c. c \<in> set ''0123456789'') ''a definir'' = []"
    by simp
  have 2: "gerarIdEstavel ''IPEA'' ''Edital 01/2025'' ''a definir'' =
      ''IPEA'' @ ''-'' @ take 60 (tituloLimpo ''Edital 01/2025'') @ ''-'' \<and>
    gerarIdEstavel ''IPEA'' ''Edital 01/2025'' ''a definir'' \<noteq>
      gerarIdEstavel ''IPEA'' ''Edital 01/2025'' ''''"
    by (rule mp [OF c [THEN conjunct2] h])
  from 2 have 3: "gerarIdEstavel ''IPEA'' ''Edital 01/2025'' ''a definir'' = ''IPEA-edital012025-''"
    by (simp add: tituloLimpo_edital)
  from 1 2 3 show ?thesis by blast
qed

section \<open>Properties of extrairJson\<close>

lemma take_pat_head: "pat \<noteq> [] \<Longrightarrow> take (length pat) (c # ys) = pat \<Longrightarrow> c \<in> set pat"
  by (cases pat) auto

lemma take_append_notin:
  assumes "c \<notin> set pat"
  shows "(take (length pat) (xs @ c # ys) = pat) = (take (length pat) xs = pat)"
proof (cases "length pat \<le> length xs")
  case True
  then show ?thesis by simp
next
  case False
  then have l: "length xs < length pat" by simp
  have "take (length pat) xs \<noteq> pat"
  proof
    assume "take (length pat) xs = pat"
    then have "length (take (length pat) xs) = length pat" by simp
    with l show False by simp
  qed
  moreover have "take (length pat) (xs @ c # ys) \<noteq> pat"
  proof
    assume e: "take (length pat) (xs @ c # ys) = pat"
    from l have "c \<in> set (take (length pat) (xs @ c # ys))"
      by (cases "length pat - length xs") auto
    with e assms show False by simp
  qed
  ultimately show ?thesis by simp
qed

lemma replace_all_match:
  "pat \<noteq> [] \<and> take (length pat) (c # cs) = pat \<Longrightarrow>
     replace_all pat (c # cs) = replace_all pat (drop (length pat) (c # cs))"
  by (subst replace_all.simps(2)) simp

lemma replace_all_nomatch:
  "\<not> (pat \<noteq> [] \<and> take (length pat) (c # cs) = pat) \<Longrightarrow>
     replace_all pat (c # cs) = c # replace_all pat cs"
  by (subst replace_all.simps(2)) auto

lemma replace_all_split:
  "c \<notin> set pat \<Longrightarrow>
     replace_all pat (xs @ c # ys) = replace_all pat xs @ c # replace_all pat ys"
proof (induction pat xs rule: replace_all.induct)
  case (1 pat)
  have "\<not> (pat \<noteq> [] \<and> take (length pat) (c # ys) = pat)"
    using take_pat_head [of pat c ys] "1.prems" by blast
  from replace_all_nomatch [OF this] show ?case by simp
next
  case (2 pat x xs)
  let ?m = "pat \<noteq> [] \<and> take (length pat) (x # xs) = pat"
  have m: "(pat \<noteq> [] \<and> take (length pat) (x # (xs @ c # ys)) = pat) = ?m"
    using take_append_notin [OF "2.prems", of "x # xs" ys] by simp
  show ?case
  proof (cases ?m)
    case True
    then have "length (take (length pat) (x # xs)) = length pat" by simp
    then have le: "length pat \<le> length (x # xs)"
      by (simp only: length_take min_def split: if_splits)
    from True m have mt: "pat \<noteq> [] \<and> take (length pat) (x # (xs @ c # ys)) = pat"
      by blast
    have d: "drop (length pat) (x # (xs @ c # ys)) = drop (length pat) (x # xs) @ c # ys"
    proof -
      from le have "length pat - length (x # xs) = 0" by simp
      then have "drop (length pat) ((x # xs) @ c # ys) = drop (length pat) (x # xs) @ c # ys"
        by (simp only: drop_append drop_0)
      then show ?thesis by (simp only: append_Cons)
    qed
    have "replace_all pat ((x # xs) @ c # ys) = replace_all pat (x # (xs @ c # ys))"
      by (simp only: append_Cons)
    also have "\<dots> = replace_all pat (drop (length pat) (x # xs) @ c # ys)"
      using replace_all_match [OF mt] d by (simp only:)
    also have "\<dots> = replace_all pat (drop (length pat) (x # xs)) @ c # replace_all pat ys"
      using "2.IH"(1) [OF True "2.prems"] .
    also have "replace_all pat (drop (length pat) (x # xs)) = replace_all pat (x # xs)"
      using replace_all_match [OF True] by (simp only:)
    finally show ?thesis .
  next
    case False
    with m have nm: "\<not> (pat \<noteq> [] \<and> take (length pat) (x # (xs @ c # ys)) = pat)"
      by blast
    have "replace_all pat ((x # xs) @ c # ys) = replace_all pat (x # (xs @ c # ys))"
      by (simp only: append_Cons)
    also have "\<dots> = x # replace_all pat (xs @ c # ys)"
      by (rule replace_all_nomatch [OF nm])
    also have "\<dots> = x # (replace_all pat xs @ c # replace_all pat ys)"
      using "2.IH"(2) [OF False "2.prems"] by (simp only:)
    also have "\<dots> = replace_all pat (x # xs) @ c # replace_all pat ys"
      using replace_all_nomatch [OF False] by (simp only: append_Cons)
    finally show ?thesis .
  qed
qed

lemma set_replace_all: "set (replace_all pat xs) \<subseteq> set xs"
proof (induction pat xs rule: replace_all.induct)
  case (1 pat)
  show ?case by simp
next
  case (2 pat x xs)
  show ?case
  proof (cases "pat \<noteq> [] \<and> take (length pat) (x # xs) = pat")
    case True
    with "2.IH"(1) [OF True] set_drop_subset [of "length pat" "x # xs"] show ?thesis
      by (auto simp del: drop_Suc_Cons)
  next
    case False
    with "2.IH"(2) [OF False] show ?thesis by auto
  qed
qed

lemma indexOf_none: "(indexOf s c = - 1) = (c \<notin> set s)"
proof (induction s)
  case Nil show ?case by simp
next
  case (Cons x s)
  have "indexOf s c \<ge> - 1 \<Longrightarrow> indexOf s c + 1 \<noteq> - 1" by simp
  moreover have "indexOf s c \<ge> - 1" for s
    by (induction s) (auto simp: Let_def)
  ultimately show ?case using Cons by (auto simp: Let_def)
qed

lemma indexOf_first: "c \<notin> set pre \<Longrightarrow> indexOf (pre @ c # rest) c = int (length pre)"
proof (induction pre)
  case Nil show ?case by simp
next
  case (Cons x pre)
  then show ?case by (auto simp: Let_def)
qed

lemma lastIndexOf_none: "(lastIndexOf s c = - 1) = (c \<notin> set s)"
proof -
  have "indexOf (rev s) c \<noteq> - 1 \<Longrightarrow> int (length s) - 1 - indexOf (rev s) c \<noteq> - 1"
  proof -
    assume "indexOf (rev s) c \<noteq> - 1"
    then have "c \<in> set (rev s)" by (simp add: indexOf_none)
    then obtain pre rest where "rev s = pre @ c # rest \<and> c \<notin> set pre"
      by (meson split_list_first)
    then have "indexOf (rev s) c = int (length pre)" "length (rev s) = length pre + 1 + length rest"
      by (simp_all add: indexOf_first)
    then show ?thesis by simp
  qed
  then show ?thesis
    using indexOf_none [of "rev s" c] by (auto simp: lastIndexOf_def Let_def)
qed

lemma lastIndexOf_last: "c \<notin> set rest \<Longrightarrow> lastIndexOf (pre @ c # rest) c = int (length pre)"
  using indexOf_first [of c "rev rest" "rev pre"]
  by (simp add: lastIndexOf_def Let_def)

lemma substring_slice:
  "substring (pre @ mid @ rest) (int (length pre)) (int (length pre + length mid)) = mid"
  by (simp add: substring_def Let_def min_def max_def nat_int_add)

lemma trim_brackets:
  "\<not> js_space a \<Longrightarrow> \<not> js_space b \<Longrightarrow>
     trim (pre @ a # mid @ b # rest) =
       dropWhile js_space pre @ a # mid @ b # rev (dropWhile js_space (rev rest))"
  by (simp add: trim_def dropWhile_append3)

lemma bracket_not_space: "\<not> js_space (CHR ''['')" "\<not> js_space (CHR '']'')"
  by (simp_all add: js_space_def unit_def)

text \<open>The slice that reaches the parser when the first \<open>[\<close> comes before the last \<open>]\<close>.\<close>

lemma extrairJson_try_slice:
  assumes s: "strip_fences text = pre @ CHR ''['' # mid @ CHR '']'' # rest"
    and pre: "CHR ''['' \<notin> set pre" and rest: "CHR '']'' \<notin> set rest"
  shows "extrairJson_try parse text =
           (case parse (CHR ''['' # mid @ '']'') of None \<Rightarrow> Inl SyntaxError | Some v \<Rightarrow> Inr v)"
proof -
  let ?l = "strip_fences text"
  have i: "indexOf ?l (CHR ''['') = int (length pre)"
    using indexOf_first [OF pre] s by simp
  have "?l = (pre @ CHR ''['' # mid) @ CHR '']'' # rest" using s by simp
  then have f: "lastIndexOf ?l (CHR '']'') = int (length (pre @ CHR ''['' # mid))"
    using lastIndexOf_last [OF rest, of "pre @ CHR ''['' # mid"] by simp
  have "?l = pre @ (CHR ''['' # mid @ '']'') @ rest" using s by simp
  then have "substring ?l (int (length pre)) (int (length pre + length (CHR ''['' # mid @ '']'')))
             = CHR ''['' # mid @ '']''"
    using substring_slice [of pre "CHR ''['' # mid @ '']''" rest] by simp
  moreover have "int (length (pre @ CHR ''['' # mid)) + 1 =
                 int (length pre + length (CHR ''['' # mid @ '']''))" by simp
  ultimately have sl: "substring ?l (indexOf ?l (CHR ''['')) (lastIndexOf ?l (CHR '']'') + 1)
             = CHR ''['' # mid @ '']''"
    using i f by simp
  show ?thesis
    unfolding extrairJson_try_def Let_def sl
    using i f by simp
qed

lemma strip_fences_brackets:
  "\<exists>pre' rest'.
     strip_fences (pre @ CHR ''['' # mid @ CHR '']'' # rest) =
       pre' @ CHR ''['' # replace_all ''```'' (replace_all ''```json'' mid) @ CHR '']'' # rest' \<and>
     set pre' \<subseteq> set pre \<and> set rest' \<subseteq> set rest"
proof -
  let ?f = "replace_all ''```json''" and ?g = "replace_all ''```''"
  have nb: "CHR ''['' \<notin> set ''```json''" "CHR '']'' \<notin> set ''```json''"
    "CHR ''['' \<notin> set ''```''" "CHR '']'' \<notin> set ''```''"
    by simp_all
  have f: "?f (pre @ CHR ''['' # mid @ CHR '']'' # rest) =
           ?f pre @ CHR ''['' # ?f mid @ CHR '']'' # ?f rest"
    by (simp only: replace_all_split [OF nb(1)] replace_all_split [OF nb(2)])
  have g: "?g (?f pre @ CHR ''['' # ?f mid @ CHR '']'' # ?f rest) =
           ?g (?f pre) @ CHR ''['' # ?g (?f mid) @ CHR '']'' # ?g (?f rest)"
    by (simp only: replace_all_split [OF nb(3)] replace_all_split [OF nb(4)])
  have t: "strip_fences (pre @ CHR ''['' # mid @ CHR '']'' # rest) =
           dropWhile js_space (?g (?f pre)) @ CHR ''['' # ?g (?f mid) @ CHR '']'' #
             rev (dropWhile js_space (rev (?g (?f rest))))"
    unfolding strip_fences_def f g by (rule trim_brackets [OF bracket_not_space])
  have "set (dropWhile js_space (?g (?f pre))) \<subseteq> set pre"
  proof
    fix x assume "x \<in> set (dropWhile js_space (?g (?f pre)))"
    then have "x \<in> set (?g (?f pre))" by (rule set_dropWhileD)
    then have "x \<in> set (?f pre)" by (rule subsetD [OF set_replace_all])
    then show "x \<in> set pre" by (rule subsetD [OF set_replace_all])
  qed
  moreover have "set (rev (dropWhile js_space (rev (?g (?f rest))))) \<subseteq> set rest"
  proof
    fix x assume "x \<in> set (rev (dropWhile js_space (rev (?g (?f rest)))))"
    then have "x \<in> set (dropWhile js_space (rev (?g (?f rest))))" by simp
    then have "x \<in> set (rev (?g (?f rest)))" by (rule set_dropWhileD)
    then have "x \<in> set (?g (?f rest))" by simp
    then have "x \<in> set (?f rest)" by (rule subsetD [OF set_replace_all])
    then show "x \<in> set rest" by (rule subsetD [OF set_replace_all])
  qed
  ultimately show ?thesis using t by blast
qed

lemma extrairJson_brackets:
  assumes "CHR ''['' \<notin> set pre" and "CHR '']'' \<notin> set rest"
  shows "extrairJson parse (pre @ CHR ''['' # mid @ CHR '']'' # rest) =
           (case parse (CHR ''['' # replace_all ''```'' (replace_all ''```json'' mid) @ '']'') of
              None \<Rightarrow> Inr (JArr []) | Some v \<Rightarrow> Inr v)"
proof -
  from strip_fences_brackets [of pre mid rest] obtain pre' rest' where
    s: "strip_fences (pre @ CHR ''['' # mid @ CHR '']'' # rest) =
       pre' @ CHR ''['' # replace_all ''```'' (replace_all ''```json'' mid) @ CHR '']'' # rest'"
    and p: "set pre' \<subseteq> set pre" and r: "set rest' \<subseteq> set rest"
    by blast
  from p r assms have "CHR ''['' \<notin> set pre'" "CHR '']'' \<notin> set rest'" by auto
  from extrairJson_try_slice [OF s this, of parse] show ?thesis
    by (simp add: extrairJson_def split: option.splits)
qed


lemma json_ws_not_bracket: "\<not> json_ws (CHR ''['')" "\<not> json_ws (CHR '']'')"
  by (simp_all add: json_ws_def)

lemma list_all_notin: "list_all P xs \<Longrightarrow> \<not> P c \<Longrightarrow> c \<notin> set xs"
  by (induction xs) auto

text \<open>
  What a JSON array text looks like. The frame at the bottom of the stack of the parser
  (\<open>fundo\<close>) decides the kind of the value: while it is an array, the value is an array
  and the last token is the closing bracket.
\<close>

definition fundo :: "bool \<Rightarrow> frame list \<Rightarrow> bool" where
  "fundo a st =
     (st \<noteq> [] \<and> (if a then (\<exists>b. last st = FArr b) else (\<exists>b. last st = FObj b)))"

definition pendente :: "expect \<Rightarrow> bool" where
  "pendente e = (\<forall>w. e \<noteq> EDone w)"

lemma complete_cases:
  "complete v st = Some (e', st') \<Longrightarrow>
     (st = [] \<and> e' = EDone v \<and> st' = []) \<or>
     (\<exists>vs r. st = FArr vs # r \<and> e' = EAfter \<and> st' = FArr (v # vs) # r) \<or>
     (\<exists>k kvs r. st = FKey k # FObj kvs # r \<and> e' = EAfter \<and> st' = FObj ((k, v) # kvs) # r)"
  by (cases "(v, st)" rule: complete.cases) auto

lemma complete_fundo:
  assumes "complete v st = Some (e', st')" and "fundo a st"
  shows "fundo a st' \<and> pendente e'"
  using complete_cases [OF assms(1)] assms(2)
  by (auto simp: fundo_def pendente_def split: if_splits)

lemma close_array_fundo:
  assumes "close_array st = Some (e', st')" and "fundo a st"
  shows "(fundo a st' \<and> pendente e') \<or> (st' = [] \<and> a \<and> (\<exists>ys. e' = EDone (JArr ys)))"
proof -
  from assms(1) obtain vs r where
    st: "st = FArr vs # r" and k: "complete (JArr (rev vs)) r = Some (e', st')"
    by (auto simp: close_array_def split: list.splits frame.splits)
  show ?thesis
  proof (cases "r = []")
    case True
    with k st assms(2) show ?thesis by (auto simp: fundo_def split: if_splits)
  next
    case False
    with assms(2) st have "fundo a r" by (auto simp: fundo_def split: if_splits)
    from complete_fundo [OF k this] show ?thesis by blast
  qed
qed

lemma close_object_fundo:
  assumes "close_object st = Some (e', st')" and "fundo a st"
  shows "(fundo a st' \<and> pendente e') \<or> (st' = [] \<and> \<not> a \<and> (\<exists>kvs. e' = EDone (JObj kvs)))"
proof -
  from assms(1) obtain kvs r where
    st: "st = FObj kvs # r" and k: "complete (JObj (rev kvs)) r = Some (e', st')"
    by (auto simp: close_object_def split: list.splits frame.splits)
  show ?thesis
  proof (cases "r = []")
    case True
    with k st assms(2) show ?thesis by (auto simp: fundo_def split: if_splits)
  next
    case False
    with assms(2) st have "fundo a r" by (auto simp: fundo_def split: if_splits)
    from complete_fundo [OF k this] show ?thesis by blast
  qed
qed

lemma fundo_push: "fundo a st \<Longrightarrow> fundo a (f # st)"
  by (simp add: fundo_def)

lemma value_token_fundo:
  assumes "value_token c st tok = Some (e', st')" and "fundo a st"
  shows "(fundo a st' \<and> pendente e') \<or>
         (st' = [] \<and> a \<and> tok = TRBrack \<and> (\<exists>ys. e' = EDone (JArr ys)))"
proof (cases tok)
  case TRBrack
  with assms(1) have "close_array st = Some (e', st')"
    by (simp add: value_token_def split: if_splits)
  from close_array_fundo [OF this assms(2)] TRBrack show ?thesis by blast
qed (use assms complete_fundo [OF _ assms(2)] fundo_push [OF assms(2)] in
      \<open>auto simp: value_token_def pendente_def\<close>)

lemma step_fundo:
  assumes "step e st tok = Some (e', st')" and "fundo a st"
  shows "(fundo a st' \<and> pendente e') \<or>
         (st' = [] \<and> a \<and> tok = TRBrack \<and> (\<exists>ys. e' = EDone (JArr ys))) \<or>
         (st' = [] \<and> \<not> a \<and> (\<exists>kvs. e' = EDone (JObj kvs)))"
proof (cases e)
  case EValue
  with assms(1) have "value_token False st tok = Some (e', st')" by (simp add: step_def)
  from value_token_fundo [OF this assms(2)] show ?thesis by blast
next
  case EValueOrEnd
  with assms(1) have "value_token True st tok = Some (e', st')" by (simp add: step_def)
  from value_token_fundo [OF this assms(2)] show ?thesis by blast
next
  case EKeyOrEnd
  show ?thesis
  proof (cases tok)
    case TRBrace
    with EKeyOrEnd assms(1) have "close_object st = Some (e', st')" by (simp add: step_def)
    from close_object_fundo [OF this assms(2)] show ?thesis by blast
  qed (use EKeyOrEnd assms fundo_push [OF assms(2)] in \<open>auto simp: step_def pendente_def\<close>)
next
  case EKey
  with assms fundo_push [OF assms(2)] show ?thesis
    by (cases tok) (auto simp: step_def pendente_def)
next
  case EColon
  with assms show ?thesis by (cases tok) (auto simp: step_def pendente_def)
next
  case EAfter
  show ?thesis
  proof (cases tok)
    case TRBrack
    with EAfter assms(1) have "close_array st = Some (e', st')" by (simp add: step_def)
    from close_array_fundo [OF this assms(2)] TRBrack show ?thesis by blast
  next
    case TRBrace
    with EAfter assms(1) have "close_object st = Some (e', st')" by (simp add: step_def)
    from close_object_fundo [OF this assms(2)] show ?thesis by blast
  next
    case TComma
    with EAfter assms show ?thesis
      by (auto simp: step_def pendente_def split: list.splits frame.splits)
  qed (use EAfter assms(1) in \<open>simp_all add: step_def\<close>)
next
  case (EDone v)
  with assms(1) show ?thesis by (simp add: step_def)
qed

lemma run_tokens_done: "run_tokens (EDone v) st toks = Some w \<Longrightarrow> toks = [] \<and> w = v"
  by (cases toks) (simp_all add: step_def)

lemma run_tokens_fundo:
  "run_tokens e st toks = Some v \<Longrightarrow> fundo a st \<Longrightarrow> pendente e \<Longrightarrow>
     (a \<longrightarrow> (\<exists>ys. v = JArr ys) \<and> toks \<noteq> [] \<and> last toks = TRBrack) \<and>
     (\<not> a \<longrightarrow> (\<exists>kvs. v = JObj kvs))"
proof (induction toks arbitrary: e st)
  case Nil
  then show ?case by (cases e) (simp_all add: pendente_def)
next
  case (Cons tok toks)
  from Cons.prems(1) obtain e' st' where
    s: "step e st tok = Some (e', st')" and r: "run_tokens e' st' toks = Some v"
    by (auto split: option.splits)
  from step_fundo [OF s Cons.prems(2)]
  consider (go) "fundo a st'" "pendente e'"
    | (arr) ys where "st' = []" "a" "tok = TRBrack" "e' = EDone (JArr ys)"
    | (obj) kvs where "st' = []" "\<not> a" "e' = EDone (JObj kvs)"
    by blast
  then show ?case
  proof cases
    case go
    from Cons.IH [OF r go] show ?thesis by simp
  next
    case arr
    with r run_tokens_done [of "JArr ys" st' toks v] show ?thesis by simp
  next
    case obj
    with r run_tokens_done [of "JObj kvs" st' toks v] show ?thesis by simp
  qed
qed

lemma run_tokens_array:
  assumes "run_tokens EValue [] toks = Some (JArr xs)"
  shows "\<exists>mid. toks = TLBrack # mid \<and> mid \<noteq> [] \<and> last mid = TRBrack"
proof (cases toks)
  case Nil
  with assms show ?thesis by simp
next
  case (Cons tok rest)
  from assms Cons obtain e' st' where
    s: "value_token False [] tok = Some (e', st')" and r: "run_tokens e' st' rest = Some (JArr xs)"
    by (auto simp: step_def split: option.splits)
  show ?thesis
  proof (cases tok)
    case TLBrack
    with s have "e' = EValueOrEnd" "st' = [FArr []]" by (simp_all add: value_token_def)
    with r run_tokens_fundo [of e' st' rest "JArr xs" True] have "rest \<noteq> [] \<and> last rest = TRBrack"
      by (simp add: fundo_def pendente_def)
    with Cons TLBrack show ?thesis by simp
  next
    case TLBrace
    with s have "e' = EKeyOrEnd" "st' = [FObj []]" by (simp_all add: value_token_def)
    with r run_tokens_fundo [of e' st' rest "JArr xs" False] have False
      by (simp add: fundo_def pendente_def)
    then show ?thesis ..
  qed (use s r run_tokens_done [of _ "[]" rest "JArr xs"] in \<open>auto simp: value_token_def\<close>)
qed

lemma scan_escape_suffix: "scan_escape cs = Some (x, r) \<Longrightarrow> \<exists>p. cs = p @ r"
  by (auto simp: scan_escape_def split: list.splits if_splits option.splits)

lemma scan_string_suffix: "scan_string cs = Some (s, rest) \<Longrightarrow> \<exists>p. cs = p @ rest"
proof (induction cs arbitrary: s rest rule: scan_string.induct)
  case 1
  then show ?case by simp
next
  case (2 c cs)
  show ?case
  proof (cases "c = CHR 0x22")
    case True
    with "2.prems" have "c # cs = [c] @ rest" by simp
    then show ?thesis by blast
  next
    case nq: False
    show ?thesis
    proof (cases "c = CHR 0x5C")
      case True
      with nq "2.prems" obtain x r s' where
        e: "scan_escape cs = Some (x, r)" and r: "scan_string r = Some (s', rest)"
        by (auto split: option.splits)
      from "2.IH"(1) [OF nq True e refl r] obtain p where p: "r = p @ rest" by blast
      from scan_escape_suffix [OF e] obtain q where "cs = q @ r" by blast
      with p have "c # cs = (c # q @ p) @ rest" by simp
      then show ?thesis by blast
    next
      case nb: False
      with nq "2.prems" obtain s' where
        c: "\<not> unit c < 0x20" and r: "scan_string cs = Some (s', rest)"
        by (auto split: if_splits)
      from "2.IH"(2) [OF nq nb c r] obtain p where "cs = p @ rest" by blast
      then have "c # cs = (c # p) @ rest" by simp
      then show ?thesis by blast
    qed
  qed
qed

lemma scan_int_suffix: "scan_int s = Some (ip, r) \<Longrightarrow> \<exists>p. s = p @ r"
  by (auto simp: scan_int_def Let_def split: if_splits intro: takeWhile_dropWhile_id [symmetric])

lemma scan_frac_suffix: "scan_frac s = Some (fp, r) \<Longrightarrow> \<exists>p. s = p @ r"
proof (cases "s \<noteq> [] \<and> hd s = CHR ''.''")
  case True
  assume "scan_frac s = Some (fp, r)"
  with True have r: "r = dropWhile is_digit (tl s)"
    by (auto simp: scan_frac_def Let_def split: if_splits)
  from True have "s = hd s # tl s" by (cases s) simp_all
  then have "s = (hd s # takeWhile is_digit (tl s)) @ dropWhile is_digit (tl s)"
    by (simp del: list.collapse)
  with r show ?thesis by blast
next
  case False
  assume "scan_frac s = Some (fp, r)"
  with False have "s = [] @ r" by (auto simp: scan_frac_def)
  then show ?thesis by blast
qed

lemma tl_suffix: "\<exists>p. s = p @ tl s"
  by (cases s) (auto intro: exI [of _ "[]"] exI [of _ "[x]" for x])

lemma dropWhile_suffix: "\<exists>p. s = p @ dropWhile P s"
  using takeWhile_dropWhile_id [of P s, symmetric] by blast

lemma suffix_trans: "\<exists>p. s = p @ r \<Longrightarrow> \<exists>q. r = q @ t \<Longrightarrow> \<exists>p. s = p @ t"
  by (metis append.assoc)

lemma scan_exp_suffix: "scan_exp s = Some (e, r) \<Longrightarrow> \<exists>p. s = p @ r"
proof (cases "s \<noteq> [] \<and> (hd s = CHR ''e'' \<or> hd s = CHR ''E'')")
  case True
  assume a: "scan_exp s = Some (e, r)"
  let ?s1 = "tl s"
  let ?s2 = "if ?s1 \<noteq> [] \<and> (hd ?s1 = CHR ''-'' \<or> hd ?s1 = CHR ''+'') then tl ?s1 else ?s1"
  from a True have r: "r = dropWhile is_digit ?s2"
    by (auto simp: scan_exp_def Let_def split: if_splits)
  have 1: "\<exists>p. s = p @ ?s1" by (rule tl_suffix)
  have 2: "\<exists>p. ?s1 = p @ ?s2" using tl_suffix [of ?s1] by (auto intro: exI [of _ "[]"])
  have 3: "\<exists>p. ?s2 = p @ r" unfolding r by (rule dropWhile_suffix)
  from suffix_trans [OF suffix_trans [OF 1 2] 3] show ?thesis .
next
  case False
  assume "scan_exp s = Some (e, r)"
  with False have "s = [] @ r" by (auto simp: scan_exp_def)
  then show ?thesis by blast
qed

lemma scan_number_suffix: "scan_number s = Some (m, e, rest) \<Longrightarrow> \<exists>p. s = p @ rest"
proof -
  assume a: "scan_number s = Some (m, e, rest)"
  let ?s1 = "if s \<noteq> [] \<and> hd s = CHR ''-'' then tl s else s"
  from a obtain ip s2 fp s3 e' where
    i: "scan_int ?s1 = Some (ip, s2)" and f: "scan_frac s2 = Some (fp, s3)"
    and x: "scan_exp s3 = Some (e', rest)"
    by (auto simp: scan_number_def Let_def split: option.splits prod.splits)
  have 0: "\<exists>p. s = p @ ?s1" using tl_suffix [of s] by (auto intro: exI [of _ "[]"])
  from suffix_trans [OF suffix_trans [OF suffix_trans [OF 0 scan_int_suffix [OF i]]
        scan_frac_suffix [OF f]] scan_exp_suffix [OF x]]
  show ?thesis .
qed

lemma take_drop_prefix: "take n xs = p \<Longrightarrow> xs = p @ drop n xs"
  by (metis append_take_drop_id)

lemma map_option_Cons_Some:
  "map_option ((#) t) r = Some ts \<Longrightarrow> \<exists>ts'. r = Some ts' \<and> ts = t # ts'"
  by auto

text \<open>
  One step of the lexer: white space is skipped, or a token is read from a prefix of the
  text. \<open>pontuacao\<close> is the token of a punctuation character.
\<close>

definition pontuacao :: "char \<Rightarrow> token option" where
  "pontuacao c =
     (if c = CHR ''['' then Some TLBrack else if c = CHR '']'' then Some TRBrack
      else if c = CHR ''{'' then Some TLBrace else if c = CHR ''}'' then Some TRBrace
      else if c = CHR '','' then Some TComma else if c = CHR '':'' then Some TColon
      else None)"

lemma lex_pontuacao:
  "\<not> json_ws c \<Longrightarrow> pontuacao c = Some t \<Longrightarrow> lex (c # cs) = map_option ((#) t) (lex cs)"
  by (subst lex.simps(2)) (auto simp: pontuacao_def split: if_splits simp del: lex.simps)

lemma lex_string:
  "\<not> json_ws c \<Longrightarrow> pontuacao c = None \<Longrightarrow> c = CHR 0x22 \<Longrightarrow>
     lex (c # cs) = (case scan_string cs of None \<Rightarrow> None
                     | Some (s, rest) \<Rightarrow> map_option ((#) (TString s)) (lex rest))"
  by (subst lex.simps(2)) (auto simp: pontuacao_def split: if_splits simp del: lex.simps)

lemma lex_number:
  "\<not> json_ws c \<Longrightarrow> pontuacao c = None \<Longrightarrow> c \<noteq> CHR 0x22 \<Longrightarrow> c = CHR ''-'' \<or> is_digit c \<Longrightarrow>
     lex (c # cs) = (case scan_number (c # cs) of None \<Rightarrow> None
                     | Some (m, e, rest) \<Rightarrow> map_option ((#) (TNumber m e)) (lex rest))"
  by (subst lex.simps(2)) (auto simp: pontuacao_def split: if_splits simp del: lex.simps)

lemma lex_word:
  "\<not> json_ws c \<Longrightarrow> pontuacao c = None \<Longrightarrow> c \<noteq> CHR 0x22 \<Longrightarrow> \<not> (c = CHR ''-'' \<or> is_digit c) \<Longrightarrow>
     lex (c # cs) =
       (if take 4 (c # cs) = ''true'' then map_option ((#) TTrue) (lex (drop 3 cs))
        else if take 5 (c # cs) = ''false'' then map_option ((#) TFalse) (lex (drop 4 cs))
        else if take 4 (c # cs) = ''null'' then map_option ((#) TNull) (lex (drop 3 cs))
        else None)"
  by (subst lex.simps(2)) (auto simp: pontuacao_def split: if_splits simp del: lex.simps)

lemma lex_step:
  assumes "lex (c # cs) = Some ts"
  shows "(json_ws c \<and> lex cs = Some ts) \<or>
         (\<exists>tok ts' p rest. \<not> json_ws c \<and> ts = tok # ts' \<and> lex rest = Some ts' \<and>
            c # cs = p @ rest \<and> p \<noteq> [] \<and>
            (tok = TLBrack \<longrightarrow> p = ''['') \<and> (tok = TRBrack \<longrightarrow> p = '']''))"
proof (cases "json_ws c")
  case True
  with assms show ?thesis by simp
next
  case ws: False
  have tok: "?thesis"
    if "ts = tok # ts'" "lex rest = Some ts'" "c # cs = p @ rest" "p \<noteq> []"
       "tok = TLBrack \<longrightarrow> p = ''[''" "tok = TRBrack \<longrightarrow> p = '']''"
    for tok ts' p rest
    using that ws by blast
  show ?thesis
  proof (cases "pontuacao c")
    case (Some t)
    from assms lex_pontuacao [OF ws Some, of cs] have "map_option ((#) t) (lex cs) = Some ts"
      by (simp only:)
    from map_option_Cons_Some [OF this] obtain ts' where
      l: "lex cs = Some ts'" and t: "ts = t # ts'" by blast
    have b: "t = TLBrack \<longrightarrow> [c] = ''[''" "t = TRBrack \<longrightarrow> [c] = '']''"
      using Some by (auto simp: pontuacao_def split: if_splits)
    show ?thesis
      by (rule tok [OF t l _ _ b]) simp_all
  next
    case np: None
    show ?thesis
    proof (cases "c = CHR 0x22")
      case True
      from assms lex_string [OF ws np True, of cs]
      have e: "(case scan_string cs of None \<Rightarrow> None
                | Some (s, rest) \<Rightarrow> map_option ((#) (TString s)) (lex rest)) = Some ts"
        by (simp only:)
      then obtain s rest where sc: "scan_string cs = Some (s, rest)"
        and m: "map_option ((#) (TString s)) (lex rest) = Some ts"
        by (cases "scan_string cs") (auto simp del: lex.simps)
      from map_option_Cons_Some [OF m] obtain ts' where
        l: "lex rest = Some ts'" and t: "ts = TString s # ts'" by blast
      from scan_string_suffix [OF sc] obtain p where "cs = p @ rest" by blast
      then have "c # cs = (c # p) @ rest" by simp
      from tok [OF t l this] show ?thesis by simp
    next
      case nq: False
      show ?thesis
      proof (cases "c = CHR ''-'' \<or> is_digit c")
        case True
        from assms lex_number [OF ws np nq True, of cs]
        have e: "(case scan_number (c # cs) of None \<Rightarrow> None
                  | Some (m, e, rest) \<Rightarrow> map_option ((#) (TNumber m e)) (lex rest)) = Some ts"
          by (simp only:)
        then obtain m x rest where sc: "scan_number (c # cs) = Some (m, x, rest)"
          and mo: "map_option ((#) (TNumber m x)) (lex rest) = Some ts"
          by (cases "scan_number (c # cs)") (auto simp del: lex.simps)
        from map_option_Cons_Some [OF mo] obtain ts' where
          l: "lex rest = Some ts'" and t: "ts = TNumber m x # ts'" by blast
        from scan_number_suffix [OF sc] obtain p where p: "c # cs = p @ rest" by blast
        from scan_number_length [OF sc] p have "p \<noteq> []" by auto
        from tok [OF t l p this] show ?thesis by simp
      next
        case nn: False
        note w = lex_word [OF ws np nq nn, of cs]
        have lit: "?thesis"
          if "map_option ((#) t) (lex (drop n cs)) = Some ts" "t \<noteq> TLBrack" "t \<noteq> TRBrack" for t n
        proof -
          from map_option_Cons_Some [OF that(1)] obtain ts' where
            l: "lex (drop n cs) = Some ts'" and t: "ts = t # ts'" by blast
          have "c # cs = take (Suc n) (c # cs) @ drop n cs"
            using take_drop_prefix [of "Suc n" "c # cs", OF refl] by simp
          from tok [OF t l this] that(2,3) show ?thesis by simp
        qed
        show ?thesis
        proof (cases "take 4 (c # cs) = ''true''")
          case True
          with w assms have "map_option ((#) TTrue) (lex (drop 3 cs)) = Some ts"
            by (simp only: if_True simp_thms)
          from lit [OF this] show ?thesis by simp
        next
          case nt: False
          show ?thesis
          proof (cases "take 5 (c # cs) = ''false''")
            case True
            with nt w assms have "map_option ((#) TFalse) (lex (drop 4 cs)) = Some ts"
              by (simp only: if_True if_False simp_thms)
            from lit [OF this] show ?thesis by simp
          next
            case nf: False
            show ?thesis
            proof (cases "take 4 (c # cs) = ''null''")
              case True
              with nt nf w assms have "map_option ((#) TNull) (lex (drop 3 cs)) = Some ts"
                by (simp only: if_True if_False simp_thms)
              from lit [OF this] show ?thesis by simp
            next
              case False
              with nt nf w assms have "None = Some ts" by (simp only: if_False simp_thms)
              then show ?thesis by simp
            qed
          qed
        qed
      qed
    qed
  qed
qed

declare lex.simps [simp del]

lemma lex_Nil: "lex s = Some [] \<Longrightarrow> list_all json_ws s"
proof (induction s)
  case Nil
  show ?case by simp
next
  case (Cons c cs)
  from lex_step [OF Cons.prems] have "json_ws c \<and> lex cs = Some []" by blast
  with Cons.IH show ?case by simp
qed

lemma lex_first:
  "lex s = Some (TLBrack # ts) \<Longrightarrow>
     \<exists>e1 rest. s = e1 @ CHR ''['' # rest \<and> list_all json_ws e1 \<and> lex rest = Some ts"
proof (induction s)
  case Nil
  then show ?case by (simp add: lex.simps)
next
  case (Cons c cs)
  from lex_step [OF Cons.prems]
  consider (ws) "json_ws c" "lex cs = Some (TLBrack # ts)"
    | (tk) rest where "\<not> json_ws c" "lex rest = Some ts" "c # cs = ''['' @ rest"
    by blast
  then show ?case
  proof cases
    case ws
    from Cons.IH [OF ws(2)] obtain e1 rest where
      "cs = e1 @ CHR ''['' # rest" "list_all json_ws e1" "lex rest = Some ts" by blast
    with ws(1) have "c # cs = (c # e1) @ CHR ''['' # rest \<and> list_all json_ws (c # e1) \<and>
        lex rest = Some ts" by simp
    then show ?thesis by blast
  next
    case tk
    then have "c # cs = [] @ CHR ''['' # rest \<and> list_all json_ws [] \<and> lex rest = Some ts"
      by simp
    then show ?thesis by blast
  qed
qed

lemma lex_last:
  "lex s = Some ts \<Longrightarrow> ts \<noteq> [] \<Longrightarrow> last ts = TRBrack \<Longrightarrow>
     \<exists>body e2. s = body @ CHR '']'' # e2 \<and> list_all json_ws e2"
proof (induction s arbitrary: ts rule: length_induct)
  case (1 s)
  note IH = "1.IH" [rule_format]
  show ?case
  proof (cases s)
    case Nil
    with "1.prems" show ?thesis by (simp add: lex.simps)
  next
    case (Cons c cs)
    from "1.prems"(1) Cons have lc: "lex (c # cs) = Some ts" by simp
    from lex_step [OF lc]
    consider (ws) "json_ws c" "lex cs = Some ts"
      | (tk) tok ts' p rest where "ts = tok # ts'" "lex rest = Some ts'" "c # cs = p @ rest"
          "p \<noteq> []" "tok = TRBrack \<longrightarrow> p = '']''"
      by blast
    then show ?thesis
    proof cases
      case ws
      have "length cs < length s" using Cons by simp
      from IH [OF this ws(2) "1.prems"(2,3)] obtain body e2 where
        "cs = body @ CHR '']'' # e2" "list_all json_ws e2" by blast
      with Cons have "s = (c # body) @ CHR '']'' # e2 \<and> list_all json_ws e2" by simp
      then show ?thesis by blast
    next
      case tk
      show ?thesis
      proof (cases "ts' = []")
        case True
        with tk(1) "1.prems"(3) have "tok = TRBrack" by simp
        with tk(5) have "p = '']''" by blast
        with tk(3) have p: "c # cs = '']'' @ rest" by (simp only:)
        from True tk(2) have "list_all json_ws rest" by (simp add: lex_Nil)
        with p Cons have "s = [] @ CHR '']'' # rest \<and> list_all json_ws rest" by simp
        then show ?thesis by blast
      next
        case False
        with tk(1) "1.prems"(3) have l: "last ts' = TRBrack" by simp
        have "length (c # cs) = length p + length rest" by (simp only: tk(3) length_append)
        with tk(4) Cons have "length rest < length s" by (cases p) simp_all
        from IH [OF this tk(2) False l] obtain body e2 where
          b: "rest = body @ CHR '']'' # e2" and e: "list_all json_ws e2" by blast
        have "s = p @ rest" using Cons tk(3) by (simp only:)
        with b have "s = (p @ body) @ CHR '']'' # e2" by (simp only: append_assoc)
        with e show ?thesis by blast
      qed
    qed
  qed
qed

text \<open>
  Every text that \<^verbatim>\<open>JSON.parse\<close> reads as an array is an opening bracket, a body and
  a closing bracket, with JSON white space around.
\<close>

lemma JSON_array_text:
  assumes "JSON_parse A = Some (JArr xs)"
  shows "\<exists>e1 corpo e2. A = e1 @ CHR ''['' # corpo @ CHR '']'' # e2 \<and>
           list_all json_ws e1 \<and> list_all json_ws e2"
proof -
  from assms obtain toks where l: "lex A = Some toks" and r: "run_tokens EValue [] toks = Some (JArr xs)"
    by (auto simp: JSON_parse_def split: option.splits)
  from run_tokens_array [OF r] obtain mid where
    t: "toks = TLBrack # mid" and m: "mid \<noteq> []" "last mid = TRBrack" by blast
  from l t have "lex A = Some (TLBrack # mid)" by (simp only:)
  from lex_first [OF this] obtain e1 rest where
    a: "A = e1 @ CHR ''['' # rest" and e1: "list_all json_ws e1" and lr: "lex rest = Some mid"
    by blast
  from lex_last [OF lr m] obtain corpo e2 where
    "rest = corpo @ CHR '']'' # e2" "list_all json_ws e2" by blast
  with a e1 show ?thesis by blast
qed

lemmas eval_lex = lex.simps json_ws_def is_digit_def hex_digit_def simple_escape_def
  scan_escape_def digits_value_def scan_int_def scan_frac_def scan_exp_def scan_number_def
  unit_def Let_def

lemmas eval_parse = JSON_parse_def step_def value_token_def close_array_def close_object_def

lemmas eval_extrair = extrairJson_def extrairJson_try_def strip_fences_def trim_def js_space_def
  lastIndexOf_def substring_def unit_def Let_def

lemma parse_edital_1:
  "JSON_parse ''[{\"titulo\": \"Edital 1\"}]'' =
     Some (JArr [JObj [(map unit ''titulo'', JStr (map unit ''Edital 1''))]])"
  by (simp add: eval_parse eval_lex)

text \<open>An escape above \<^verbatim>\<open>\u00FF\<close>, and a pair of surrogates.\<close>

lemma parse_escapes:
  "JSON_parse (''[\"A'' @ [CHR 0x5C] @ ''u0100'' @ [CHR 0x5C] @ ''uD83D'' @ [CHR 0x5C] @ ''ude00\"]'') =
     Some (JArr [JStr [0x41, 0x100, 0xD83D, 0xDE00]])"
  by (simp add: eval_parse eval_lex)

lemma extrair_edital_1:
  "extrairJson JSON_parse ''[{\"titulo\": \"Edital 1\"}]'' =
     Inr (JArr [JObj [(map unit ''titulo'', JStr (map unit ''Edital 1''))]])"
  by (simp add: eval_extrair parse_edital_1)

text \<open>
  C5. For every input text (and whatever the parser does), extrairJson returns a value
  and throws nothing; the value is the empty array or what the parser returned for a
  whole slice, never a part of it. When the text, once the fences are stripped and the
  ends trimmed, has no \<open>[\<close> or no \<open>]\<close>, the result is the empty array; when the slice from
  the first \<open>[\<close> to the last \<open>]\<close> fails to parse, the result is the empty array.
\<close>

theorem C5_extraction:
  "(\<exists>v. extrairJson parse texto = Inr v \<and> (v = JArr [] \<or> (\<exists>s. parse s = Some v))) \<and>
   (CHR ''['' \<notin> set (strip_fences texto) \<or> CHR '']'' \<notin> set (strip_fences texto)
      \<longrightarrow> extrairJson parse texto = Inr (JArr [])) \<and>
   (strip_fences texto = pre @ CHR ''['' # mid @ CHR '']'' # rest \<and>
    CHR ''['' \<notin> set pre \<and> CHR '']'' \<notin> set rest \<and> parse (CHR ''['' # mid @ '']'') = None
      \<longrightarrow> extrairJson parse texto = Inr (JArr []))"
proof (intro conjI impI)
  show "\<exists>v. extrairJson parse texto = Inr v \<and> (v = JArr [] \<or> (\<exists>s. parse s = Some v))"
    by (auto simp: extrairJson_def extrairJson_try_def Let_def split: option.splits)
next
  assume "CHR ''['' \<notin> set (strip_fences texto) \<or> CHR '']'' \<notin> set (strip_fences texto)"
  then have "indexOf (strip_fences texto) (CHR ''['') = - 1 \<or>
             lastIndexOf (strip_fences texto) (CHR '']'') = - 1"
    by (simp add: indexOf_none lastIndexOf_none)
  then show "extrairJson parse texto = Inr (JArr [])"
    by (auto simp: extrairJson_def extrairJson_try_def Let_def)
next
  assume a: "strip_fences texto = pre @ CHR ''['' # mid @ CHR '']'' # rest \<and>
    CHR ''['' \<notin> set pre \<and> CHR '']'' \<notin> set rest \<and> parse (CHR ''['' # mid @ '']'') = None"
  then have "extrairJson_try parse texto = Inl SyntaxError"
    using extrairJson_try_slice [of texto pre mid rest parse] by simp
  then show "extrairJson parse texto = Inr (JArr [])"
    by (simp add: extrairJson_def)
qed


theorem C5_extraction_witness:
  "extrairJson JSON_parse ''Nenhum edital encontrado.'' = Inr (JArr []) \<and>
   extrairJson JSON_parse ''```json [{\"titulo\": \"Edital 1\", ] ```'' = Inr (JArr [])"
proof -
  have a: "CHR ''['' \<notin> set (strip_fences ''Nenhum edital encontrado.'') \<or>
           CHR '']'' \<notin> set (strip_fences ''Nenhum edital encontrado.'')"
    by (simp add: eval_extrair)
  have b: "strip_fences ''```json [{\"titulo\": \"Edital 1\", ] ```'' =
             [] @ CHR ''['' # ''{\"titulo\": \"Edital 1\", '' @ CHR '']'' # [] \<and>
           CHR ''['' \<notin> set [] \<and> CHR '']'' \<notin> set [] \<and>
           JSON_parse (CHR ''['' # ''{\"titulo\": \"Edital 1\", '' @ '']'') = None"
    by (simp add: eval_extrair eval_parse eval_lex)
  have 1: "extrairJson JSON_parse ''Nenhum edital encontrado.'' = Inr (JArr [])"
    by (rule mp [OF C5_extraction [where parse = JSON_parse, THEN conjunct2, THEN conjunct1] a])
  have 2: "extrairJson JSON_parse ''```json [{\"titulo\": \"Edital 1\", ] ```'' = Inr (JArr [])"
    by (rule mp [OF C5_extraction [where parse = JSON_parse and pre = "[]" and rest = "[]"
            and mid = "''{\"titulo\": \"Edital 1\", ''", THEN conjunct2, THEN conjunct2] b])
  from 1 2 show ?thesis by (rule conjI)
qed

text \<open>
  C6, as amended. For every text \<open>A\<close> of the form of a JSON array text (an opening
  bracket, a body and a closing bracket, with JSON white space around: by
  \<open>JSON_array_text\<close> every text that JSON.parse reads as an array has this form),
  extrairJson applied to \<open>A\<close> wrapped in triple-backtick fences (with or without the tag
  \<open>json\<close>), with leading prose that contains no \<open>[\<close> and trailing prose that contains no
  \<open>]\<close>, returns what it returns for \<open>A\<close> alone, whatever the parser does.
\<close>

theorem C6_fences:
  assumes "CHR ''['' \<notin> set antes" and "CHR '']'' \<notin> set depois"
    and "A = e1 @ CHR ''['' # corpo @ CHR '']'' # e2"
    and "list_all json_ws e1" and "list_all json_ws e2"
    and "abre = ''```json'' \<or> abre = ''```''"
  shows "extrairJson parse (antes @ abre @ A @ ''```'' @ depois) = extrairJson parse A"
proof -
  have ws: "CHR ''['' \<notin> set e1" "CHR '']'' \<notin> set e2"
    using assms(4,5) json_ws_not_bracket by (simp_all add: list_all_notin)
  have abre: "CHR ''['' \<notin> set abre" using assms(6) by auto
  have l: "CHR ''['' \<notin> set (antes @ abre @ e1)" using assms(1) ws abre by simp
  have r: "CHR '']'' \<notin> set (e2 @ ''```'' @ depois)" using assms(2) ws by simp
  have "antes @ abre @ A @ ''```'' @ depois =
        (antes @ abre @ e1) @ CHR ''['' # corpo @ CHR '']'' # (e2 @ ''```'' @ depois)"
    using assms(3) by simp
  then have "extrairJson parse (antes @ abre @ A @ ''```'' @ depois) =
      (case parse (CHR ''['' # replace_all ''```'' (replace_all ''```json'' corpo) @ '']'') of
         None \<Rightarrow> Inr (JArr []) | Some v \<Rightarrow> Inr v)"
    using extrairJson_brackets [OF l r, of parse corpo] by (simp only:)
  also have "\<dots> = extrairJson parse A"
    using extrairJson_brackets [OF ws, of parse corpo] assms(3) by (simp only:)
  finally show ?thesis .
qed

theorem C6_fences_witness:
  "extrairJson JSON_parse
     (''Segue a lista: '' @ ''```json'' @ ([CHR 0x0A] @ ''[{\"titulo\": \"Edital 1\"}]'' @ [CHR 0x0A])
        @ ''```'' @ '' Fim.'') =
   Inr (JArr [JObj [(map unit ''titulo'', JStr (map unit ''Edital 1''))]])"
proof -
  have "extrairJson JSON_parse
     (''Segue a lista: '' @ ''```json'' @ ([CHR 0x0A] @ ''[{\"titulo\": \"Edital 1\"}]'' @ [CHR 0x0A])
        @ ''```'' @ '' Fim.'') =
     extrairJson JSON_parse ([CHR 0x0A] @ ''[{\"titulo\": \"Edital 1\"}]'' @ [CHR 0x0A])"
    by (rule C6_fences [where ?e1.0 = "[CHR 0x0A]" and ?e2.0 = "[CHR 0x0A]"
          and corpo = "''{\"titulo\": \"Edital 1\"}''"])
       (simp_all add: json_ws_def)
  also have "\<dots> = Inr (JArr [JObj [(map unit ''titulo'', JStr (map unit ''Edital 1''))]])"
    by (simp add: eval_extrair parse_edital_1)
  finally show ?thesis .
qed

text \<open>
  C6 as stated fails when the prose has a bracket of its own: with the leading prose
  \<open>Lista [IPEA]: \<close> the slice starts at the bracket of the prose, does not parse, and the
  result is the empty array, while the bare array yields its record.
\<close>

theorem C6_counterexample:
  "JSON_parse ''[{\"titulo\": \"Edital 1\"}]'' =
     Some (JArr [JObj [(map unit ''titulo'', JStr (map unit ''Edital 1''))]]) \<and>
   extrairJson JSON_parse ''[{\"titulo\": \"Edital 1\"}]'' =
     Inr (JArr [JObj [(map unit ''titulo'', JStr (map unit ''Edital 1''))]]) \<and>
   extrairJson JSON_parse
     (''Lista [IPEA]: '' @ ''```json'' @ ''[{\"titulo\": \"Edital 1\"}]'' @ ''```'' @ '' Fim.'') =
     Inr (JArr [])"
proof -
  have "extrairJson JSON_parse
     (''Lista [IPEA]: '' @ ''```json'' @ ''[{\"titulo\": \"Edital 1\"}]'' @ ''```'' @ '' Fim.'') =
     Inr (JArr [])"
    by (simp add: eval_extrair eval_parse eval_lex)
  then show ?thesis
    using parse_edital_1 extrair_edital_1 by (simp only: simp_thms)
qed

section \<open>What the statements about reconciliation mean\<close>

text \<open>
  The state a run ends in, whether it completed or an exception left it, and the state
  at the start of \<^verbatim>\<open>main\<close>: the rows of the table, and no new record yet.
\<close>

definition estado_de :: "run \<Rightarrow> estado" where
  "estado_de r = (case r of Completed st \<Rightarrow> st | Crashed e st \<Rightarrow> st)"

definition inicio :: "row list \<Rightarrow> estado" where
  "inicio rows = \<lparr>db = rows, novasOportunidades = []\<rparr>"

definition ids_db :: "estado \<Rightarrow> string list" where
  "ids_db st = map col_id (db st)"

definition ids_novas :: "estado \<Rightarrow> string list" where
  "ids_novas st = map id_unico (novasOportunidades st)"

text \<open>
  The identity that the loop computes for an item of a source: \<open>None\<close> for an item that
  the loop skips (and for one on which it throws). \<open>ids_grupos\<close> lists the identities of
  all the items of a run, in the order of the loops.
\<close>

definition idDe :: "fonte \<Rightarrow> string json \<Rightarrow> string option" where
  "idDe f item =
     (case getProp item ''titulo'' of
        Inl e \<Rightarrow> None
      | Inr titulo \<Rightarrow>
          if truthy titulo then
            (case getProp item ''prazo'' of
               Inl e \<Rightarrow> None
             | Inr prazo \<Rightarrow>
                 (case gerarIdEstavel_any (nome f) titulo prazo of
                    Inl e \<Rightarrow> None
                  | Inr i \<Rightarrow> Some i))
          else None)"

definition ids_grupos :: "(fonte \<times> string json) list \<Rightarrow> string list" where
  "ids_grupos grupos =
     concat (map (\<lambda>(f, dados). case iterate dados of
                                  Inl e \<Rightarrow> []
                                | Inr itens \<Rightarrow> List.map_filter (idDe f) itens) grupos)"

text \<open>
  \<open>primeiras xs\<close> keeps the first occurrence of every element of \<open>xs\<close>, in order.
  \<open>ineditos S xs\<close> does the same for the elements that are not in \<open>S\<close>; it is the form in
  which the loops are analysed.
\<close>

fun primeiras :: "'a list \<Rightarrow> 'a list" where
  "primeiras [] = []"
| "primeiras (x # xs) = x # primeiras (removeAll x xs)"

fun ineditos :: "'a set \<Rightarrow> 'a list \<Rightarrow> 'a list" where
  "ineditos S [] = []"
| "ineditos S (x # xs) = (if x \<in> S then ineditos S xs else x # ineditos (insert x S) xs)"

text \<open>
  A candidate record, as the specification has it: an object whose title and deadline
  are strings, either of which may be absent. It is valid when its title is not empty;
  its identity is that of its source name, its title and its deadline (the empty
  string for an absent deadline).
\<close>

definition campo :: "string json \<Rightarrow> string \<Rightarrow> string json option" where
  "campo item k = (case getProp item k of Inl e \<Rightarrow> None | Inr v \<Rightarrow> v)"

definition texto_ou_ausente :: "string json option \<Rightarrow> bool" where
  "texto_ou_ausente v = (case v of None \<Rightarrow> True | Some (JStr s) \<Rightarrow> True | Some other \<Rightarrow> False)"

definition candidato :: "string json \<Rightarrow> bool" where
  "candidato item =
     (case item of
        JObj kvs \<Rightarrow> texto_ou_ausente (campo item ''titulo'') \<and> texto_ou_ausente (campo item ''prazo'')
      | other \<Rightarrow> False)"

definition texto_de :: "string json option \<Rightarrow> string" where
  "texto_de v = (case v of Some (JStr s) \<Rightarrow> s | other \<Rightarrow> [])"

definition valido :: "string json \<Rightarrow> bool" where
  "valido item = (texto_de (campo item ''titulo'') \<noteq> [])"

definition identidade :: "fonte \<Rightarrow> string json \<Rightarrow> string" where
  "identidade f item =
     gerarIdEstavel (nome f) (texto_de (campo item ''titulo'')) (texto_de (campo item ''prazo''))"

text \<open>The invariant of the loops: no identity twice, and every new record is in the table.\<close>

definition invariante :: "estado \<Rightarrow> bool" where
  "invariante st =
     (distinct (ids_db st) \<and> distinct (ids_novas st) \<and> set (ids_novas st) \<subseteq> set (ids_db st))"

section \<open>Properties of the reconciliation\<close>

lemma db_get_None: "(db_get rows i = None) = (i \<notin> set (map col_id rows))"
  by (auto simp: db_get_def find_None_iff)

lemma db_get_Some: "db_get rows i = Some r \<Longrightarrow> i \<in> col_id ` set rows"
  using db_get_None [of rows i] by auto

lemma processarItem_cases:
  "processarItem f item st = Crashed e st' \<Longrightarrow> st' = st"
  by (auto simp: processarItem_def db_run_def db_get_None split: sum.splits if_splits option.splits json.splits)

lemma processarItem_Completed:
  assumes "processarItem f item st = Completed st'"
  shows "(case idDe f item of
            None \<Rightarrow> st' = st
          | Some i \<Rightarrow>
              if i \<in> set (ids_db st) then st' = st
              else ids_db st' = ids_db st @ [i] \<and> ids_novas st' = ids_novas st @ [i])"
  using assms
  by (auto simp: processarItem_def idDe_def db_run_def db_get_None ids_db_def ids_novas_def
      dest: db_get_Some split: sum.splits if_splits option.splits json.splits)

lemma ineditos_primeiras: "ineditos S xs = primeiras (filter (\<lambda>x. x \<notin> S) xs)"
proof (induction xs arbitrary: S)
  case Nil
  show ?case by simp
next
  case (Cons x xs)
  have "removeAll x (filter (\<lambda>y. y \<notin> S) xs) = filter (\<lambda>y. y \<notin> insert x S) xs"
    by (induction xs) auto
  with Cons show ?case by simp
qed

lemma set_ineditos: "set (ineditos S xs) = set xs - S"
  by (induction xs arbitrary: S) auto

lemma distinct_ineditos: "distinct (ineditos S xs)"
  by (induction xs arbitrary: S) (auto simp: set_ineditos)

lemma ineditos_distinct: "distinct xs \<Longrightarrow> set xs \<inter> S = {} \<Longrightarrow> ineditos S xs = xs"
  by (induction xs arbitrary: S) auto

lemma ineditos_seen: "set xs \<subseteq> S \<Longrightarrow> ineditos S xs = []"
  by (induction xs arbitrary: S) auto

lemma processarGrupo_Completed:
  "processarGrupo f itens st = Completed st' \<Longrightarrow>
     ids_db st' = ids_db st @ ineditos (set (ids_db st)) (List.map_filter (idDe f) itens) \<and>
     ids_novas st' = ids_novas st @ ineditos (set (ids_db st)) (List.map_filter (idDe f) itens)"
proof (induction itens arbitrary: st)
  case Nil
  then show ?case by (simp add: List.map_filter_simps)
next
  case (Cons item itens)
  from Cons.prems obtain st1 where
    1: "processarItem f item st = Completed st1" and 2: "processarGrupo f itens st1 = Completed st'"
    by (auto split: run.splits)
  note step = processarItem_Completed [OF 1]
  note ih = Cons.IH [OF 2]
  show ?case
  proof (cases "idDe f item")
    case None
    with step ih show ?thesis by (simp add: List.map_filter_simps)
  next
    case (Some i)
    show ?thesis
    proof (cases "i \<in> set (ids_db st)")
      case True
      with Some step ih show ?thesis by (simp add: List.map_filter_simps)
    next
      case False
      with Some step ih show ?thesis by (simp add: List.map_filter_simps)
    qed
  qed
qed

lemma ineditos_append: "ineditos S (xs @ ys) = ineditos S xs @ ineditos (S \<union> set xs) ys"
proof (induction xs arbitrary: S)
  case Nil
  show ?case by simp
next
  case (Cons x xs)
  show ?case
  proof (cases "x \<in> S")
    case True
    then have "S \<union> set (x # xs) = S \<union> set xs" by auto
    with True Cons show ?thesis by simp
  next
    case False
    have "S \<union> set (x # xs) = insert x S \<union> set xs" by auto
    with False Cons show ?thesis by simp
  qed
qed

lemma processarTodos_Completed:
  "processarTodos grupos st = Completed st' \<Longrightarrow>
     ids_db st' = ids_db st @ ineditos (set (ids_db st)) (ids_grupos grupos) \<and>
     ids_novas st' = ids_novas st @ ineditos (set (ids_db st)) (ids_grupos grupos)"
proof (induction grupos arbitrary: st)
  case Nil
  then show ?case by (simp add: ids_grupos_def)
next
  case (Cons g grupos)
  obtain f dados where g: "g = (f, dados)" by (cases g)
  from Cons.prems g obtain itens st1 where
    it: "iterate dados = Inr itens" and
    1: "processarGrupo f itens st = Completed st1" and
    2: "processarTodos grupos st1 = Completed st'"
    by (auto split: sum.splits run.splits)
  note a = processarGrupo_Completed [OF 1]
  note b = Cons.IH [OF 2]
  have s: "set (ids_db st1) = set (ids_db st) \<union> set (List.map_filter (idDe f) itens)"
    using a by (auto simp: set_ineditos)
  have "ids_grupos (g # grupos) = List.map_filter (idDe f) itens @ ids_grupos grupos"
    using g it by (simp add: ids_grupos_def)
  with a b s show ?case by (simp add: ineditos_append)
qed

lemma invariante_processarItem: "invariante st \<Longrightarrow> invariante (estado_de (processarItem f item st))"
proof (cases "processarItem f item st")
  case (Crashed e st')
  assume "invariante st"
  with Crashed processarItem_cases [OF Crashed] show ?thesis by (simp add: estado_de_def)
next
  case (Completed st')
  assume i: "invariante st"
  from processarItem_Completed [OF Completed] i have "invariante st'"
    by (auto simp: invariante_def split: option.splits if_splits)
  with Completed show ?thesis by (simp add: estado_de_def)
qed

lemma invariante_processarGrupo: "invariante st \<Longrightarrow> invariante (estado_de (processarGrupo f itens st))"
proof (induction itens arbitrary: st)
  case Nil
  then show ?case by (simp add: estado_de_def)
next
  case (Cons item itens)
  from invariante_processarItem [OF Cons.prems, of f item] Cons.IH show ?case
    by (cases "processarItem f item st") (simp_all add: estado_de_def)
qed

lemma invariante_processarTodos: "invariante st \<Longrightarrow> invariante (estado_de (processarTodos grupos st))"
proof (induction grupos arbitrary: st)
  case Nil
  then show ?case by (simp add: estado_de_def)
next
  case (Cons g grupos)
  obtain f dados where g: "g = (f, dados)" by (cases g)
  show ?case
  proof (cases "iterate dados")
    case (Inl e)
    with g Cons.prems show ?thesis by (simp add: estado_de_def)
  next
    case (Inr itens)
    from invariante_processarGrupo [OF Cons.prems, of f itens] Cons.IH g Inr show ?thesis
      by (cases "processarGrupo f itens st") (simp_all add: estado_de_def)
  qed
qed

lemma candidato_idDe:
  "candidato item \<Longrightarrow> idDe f item = (if valido item then Some (identidade f item) else None)"
  by (auto simp: candidato_def idDe_def valido_def identidade_def campo_def texto_de_def getProp_def
      texto_ou_ausente_def gerarIdEstavel_any_def split: json.splits option.splits)

lemma candidato_processarItem:
  "candidato item \<Longrightarrow> \<exists>st'. processarItem f item st = Completed st'"
  by (auto simp: candidato_def processarItem_def campo_def getProp_def texto_ou_ausente_def
      gerarIdEstavel_any_def db_run_def db_get_None
      split: json.splits option.splits)

lemma candidato_processarGrupo:
  "list_all candidato itens \<Longrightarrow> \<exists>st'. processarGrupo f itens st = Completed st'"
proof (induction itens arbitrary: st)
  case Nil
  show ?case by simp
next
  case (Cons item itens)
  then obtain st1 where "processarItem f item st = Completed st1"
    using candidato_processarItem [of item f st] by auto
  with Cons show ?case by simp
qed

lemma map_filter_candidatos:
  "list_all candidato itens \<Longrightarrow>
     List.map_filter (idDe f) itens = map (identidade f) (filter valido itens)"
  by (induction itens) (simp_all add: List.map_filter_simps candidato_idDe)

lemma processarGrupo_append:
  "processarGrupo f (xs @ ys) st =
     (case processarGrupo f xs st of
        Crashed e st' \<Rightarrow> Crashed e st'
      | Completed st' \<Rightarrow> processarGrupo f ys st')"
  by (induction xs arbitrary: st) (simp_all split: run.splits)

lemma primeiras_distinct: "distinct xs \<Longrightarrow> primeiras xs = xs"
  by (induction xs) simp_all

lemma ineditos_empty: "ineditos {} xs = primeiras xs"
  using ineditos_primeiras [of "{}" xs] by simp

lemma processarGrupo_seen:
  "processarGrupo f itens st = Completed st' \<Longrightarrow>
     set (List.map_filter (idDe f) itens) \<subseteq> set (ids_db st) \<Longrightarrow> st' = st"
proof (induction itens arbitrary: st)
  case Nil
  then show ?case by simp
next
  case (Cons item itens)
  from Cons.prems(1) obtain st1 where
    1: "processarItem f item st = Completed st1" and 2: "processarGrupo f itens st1 = Completed st'"
    by (auto split: run.splits)
  have "st1 = st"
    using processarItem_Completed [OF 1] Cons.prems(2)
    by (auto simp: List.map_filter_simps split: option.splits if_splits)
  with 2 Cons.IH [of st] Cons.prems(2) show ?case
    by (auto simp: List.map_filter_simps split: option.splits)
qed

lemma id_ipea_edital:
  "gerarIdEstavel ''IPEA'' ''Edital 01/2025'' ''15/12/2025'' = ''IPEA-edital012025-15122025''"
  by (simp add: eval_id eval_unit)

lemma id_ipea_edital_maiusculas:
  "gerarIdEstavel ''IPEA'' ''EDITAL 01/2025'' ''15/12/2025'' = ''IPEA-edital012025-15122025''"
  by (simp add: eval_id eval_unit)

lemma id_fnp_edital:
  "gerarIdEstavel ''FNP'' ''Edital 01/2025'' ''15/12/2025'' = ''FNP-edital012025-15122025''"
  by (simp add: eval_id eval_unit)

lemma id_ipea_chamada:
  "gerarIdEstavel ''IPEA'' ''Chamada 57/2025'' '''' = ''IPEA-chamada572025-0000''"
  by (simp add: eval_id eval_unit)

lemmas eval_spec = candidato_def valido_def identidade_def campo_def texto_de_def
  texto_ou_ausente_def getProp_def FONTE_IPEA_def FONTE_FNP_def

lemmas eval_loop = processarItem_def getProp_def gerarIdEstavel_any_def db_get_def db_run_def
  inicio_def estado_de_def iterate_def FONTE_IPEA_def FONTE_FNP_def FONTE_UNDP_def FONTE_ICLEI_def

text \<open>
  C7. For every item whose \<^verbatim>\<open>titulo\<close> is absent or the empty string (every object of
  that kind, and every other value but \<^verbatim>\<open>null\<close>), the loop computes no identity for it
  and the step leaves the state as it is, table and new records, and completes: the
  loop over a list that has the item goes as the loop over the list without it.
\<close>

theorem C7_skip:
  assumes "getProp item ''titulo'' = Inr None \<or> getProp item ''titulo'' = Inr (Some (JStr []))"
  shows "idDe f item = None \<and>
         processarItem f item st = Completed st \<and>
         processarGrupo f (antes @ item # depois) st = processarGrupo f (antes @ depois) st"
proof -
  have a: "idDe f item = None" using assms by (auto simp: idDe_def)
  have b: "processarItem f item s = Completed s" for s
    using assms by (auto simp: processarItem_def)
  have "processarGrupo f (antes @ item # depois) st = processarGrupo f (antes @ depois) st"
    by (simp add: processarGrupo_append b split: run.splits)
  with a b show ?thesis by simp
qed

theorem C7_skip_witness:
  "processarItem FONTE_IPEA (JObj [(''prazo'', JStr ''15/12/2025'')]) (inicio []) =
     Completed (inicio []) \<and>
   processarItem FONTE_IPEA (JObj [(''titulo'', JStr ''''), (''prazo'', JStr ''15/12/2025'')])
     (inicio []) = Completed (inicio []) \<and>
   processarGrupo FONTE_IPEA
     ([] @ JObj [(''prazo'', JStr ''15/12/2025'')] #
        [JObj [(''titulo'', JStr ''Edital 01/2025''), (''prazo'', JStr ''15/12/2025'')]])
     (inicio []) =
   processarGrupo FONTE_IPEA
     ([] @ [JObj [(''titulo'', JStr ''Edital 01/2025''), (''prazo'', JStr ''15/12/2025'')]])
     (inicio [])"
proof -
  have a: "getProp (JObj [(''prazo'', JStr ''15/12/2025'')]) ''titulo'' = Inr None \<or>
           getProp (JObj [(''prazo'', JStr ''15/12/2025'')]) ''titulo'' = Inr (Some (JStr []))"
    by (simp add: getProp_def)
  have b: "getProp (JObj [(''titulo'', JStr ''''), (''prazo'', JStr ''15/12/2025'')]) ''titulo'' = Inr None \<or>
           getProp (JObj [(''titulo'', JStr ''''), (''prazo'', JStr ''15/12/2025'')]) ''titulo'' =
             Inr (Some (JStr []))"
    by (simp add: getProp_def)
  from C7_skip [OF a, of FONTE_IPEA "inicio []" "[]"
      "[JObj [(''titulo'', JStr ''Edital 01/2025''), (''prazo'', JStr ''15/12/2025'')]]"]
    C7_skip [OF b, of FONTE_IPEA "inicio []"]
  show ?thesis by blast
qed

text \<open>
  C2. From a table without repeated identities, one pass over the groups of all the
  sources leaves no identity twice in the table and none twice among the new records,
  also when an exception ends it. When the pass completes, the identities of the new
  records are the first occurrences, in order, of the identities of the items that were
  not in the table (a later item with the same identity, of the same or another source,
  is skipped), and the table has them after its rows of before.
\<close>

theorem C2_no_duplicates:
  assumes "distinct (map col_id rows)"
  shows "distinct (map col_id (db (estado_de (processarTodos grupos (inicio rows))))) \<and>
         distinct (map id_unico (novasOportunidades (estado_de (processarTodos grupos (inicio rows))))) \<and>
         (\<forall>st. processarTodos grupos (inicio rows) = Completed st \<longrightarrow>
            map id_unico (novasOportunidades st) =
              primeiras (filter (\<lambda>i. i \<notin> set (map col_id rows)) (ids_grupos grupos)) \<and>
            map col_id (db st) = map col_id rows @ map id_unico (novasOportunidades st))"
proof -
  have "invariante (inicio rows)" using assms by (simp add: invariante_def inicio_def ids_db_def ids_novas_def)
  from invariante_processarTodos [OF this, of grupos]
  have 1: "distinct (map col_id (db (estado_de (processarTodos grupos (inicio rows)))))"
    and 2: "distinct (map id_unico (novasOportunidades (estado_de (processarTodos grupos (inicio rows)))))"
    by (simp_all add: invariante_def ids_db_def ids_novas_def)
  have 3: "map id_unico (novasOportunidades st) =
              primeiras (filter (\<lambda>i. i \<notin> set (map col_id rows)) (ids_grupos grupos)) \<and>
            map col_id (db st) = map col_id rows @ map id_unico (novasOportunidades st)"
    if "processarTodos grupos (inicio rows) = Completed st" for st
    using processarTodos_Completed [OF that]
    by (simp add: ids_db_def ids_novas_def inicio_def ineditos_primeiras)
  from 1 2 3 show ?thesis by blast
qed

theorem C2_no_duplicates_witness:
  "distinct (map col_id (db (estado_de (processarTodos
      [(FONTE_IPEA, JArr [JObj [(''titulo'', JStr ''Edital 01/2025''), (''prazo'', JStr ''15/12/2025'')],
                          JObj [(''titulo'', JStr ''EDITAL 01/2025''), (''prazo'', JStr ''15/12/2025'')]]),
       (FONTE_FNP, JArr [JObj [(''titulo'', JStr ''Edital 01/2025''), (''prazo'', JStr ''15/12/2025'')]])]
      (inicio []))))) \<and>
   map id_unico (novasOportunidades (estado_de (processarTodos
      [(FONTE_IPEA, JArr [JObj [(''titulo'', JStr ''Edital 01/2025''), (''prazo'', JStr ''15/12/2025'')],
                          JObj [(''titulo'', JStr ''EDITAL 01/2025''), (''prazo'', JStr ''15/12/2025'')]]),
       (FONTE_FNP, JArr [JObj [(''titulo'', JStr ''Edital 01/2025''), (''prazo'', JStr ''15/12/2025'')]])]
      (inicio [])))) =
     [''IPEA-edital012025-15122025'', ''FNP-edital012025-15122025'']"
proof -
  let ?g = "[(FONTE_IPEA, JArr [JObj [(''titulo'', JStr ''Edital 01/2025''), (''prazo'', JStr ''15/12/2025'')],
                          JObj [(''titulo'', JStr ''EDITAL 01/2025''), (''prazo'', JStr ''15/12/2025'')]]),
       (FONTE_FNP, JArr [JObj [(''titulo'', JStr ''Edital 01/2025''), (''prazo'', JStr ''15/12/2025'')]])]"
  have d: "distinct (map col_id ([] :: row list))" by simp
  note c = C2_no_duplicates [OF d, of ?g]
  have i: "ids_grupos ?g =
    [''IPEA-edital012025-15122025'', ''IPEA-edital012025-15122025'', ''FNP-edital012025-15122025'']"
    by (simp add: ids_grupos_def idDe_def List.map_filter_simps eval_loop
        id_ipea_edital id_ipea_edital_maiusculas id_fnp_edital)
  obtain st where r: "processarTodos ?g (inicio []) = Completed st"
    by (simp add: eval_loop id_ipea_edital id_ipea_edital_maiusculas id_fnp_edital)
  from c r have "map id_unico (novasOportunidades st) =
      primeiras (filter (\<lambda>i. i \<notin> set (map col_id ([] :: row list))) (ids_grupos ?g))"
    by blast
  with i have n: "map id_unico (novasOportunidades st) =
      [''IPEA-edital012025-15122025'', ''FNP-edital012025-15122025'']"
    by simp
  from r have e: "estado_de (processarTodos ?g (inicio [])) = st" by (simp add: estado_de_def)
  from c have "distinct (map col_id (db (estado_de (processarTodos ?g (inicio [])))))"
    by blast
  with n e show ?thesis by simp
qed

text \<open>
  C1, as amended. For every list of candidate records of a source and an empty table,
  the first run completes; the identities of its new records are the first occurrences,
  in order, of the identities of the valid candidates, and the table holds exactly
  these, so the identity of every valid candidate is in the table. When the valid
  candidates have distinct identities, every one of them is a new record. The second run
  over the same list, from the table the first run left, completes with no new record
  and the same table.
\<close>

theorem C1_idempotence:
  assumes "list_all candidato dados"
  shows "\<exists>st1. processarGrupo f dados (inicio []) = Completed st1 \<and>
           map id_unico (novasOportunidades st1) = primeiras (map (identidade f) (filter valido dados)) \<and>
           map col_id (db st1) = primeiras (map (identidade f) (filter valido dados)) \<and>
           set (map (identidade f) (filter valido dados)) \<subseteq> set (map col_id (db st1)) \<and>
           (distinct (map (identidade f) (filter valido dados)) \<longrightarrow>
              map id_unico (novasOportunidades st1) = map (identidade f) (filter valido dados)) \<and>
           processarGrupo f dados (inicio (db st1)) = Completed (inicio (db st1))"
proof -
  let ?ids = "map (identidade f) (filter valido dados)"
  have ids: "List.map_filter (idDe f) dados = ?ids"
    using assms by (rule map_filter_candidatos)
  from candidato_processarGrupo [OF assms, of f "inicio []"] obtain st1 where
    1: "processarGrupo f dados (inicio []) = Completed st1" by blast
  from processarGrupo_Completed [OF 1] ids
  have n: "map id_unico (novasOportunidades st1) = primeiras ?ids"
    and d: "map col_id (db st1) = primeiras ?ids"
    by (simp_all add: ids_db_def ids_novas_def inicio_def ineditos_empty)
  have s: "set ?ids \<subseteq> set (map col_id (db st1))"
    using processarGrupo_Completed [OF 1] ids
    by (simp add: ids_db_def inicio_def set_ineditos)
  from candidato_processarGrupo [OF assms, of f "inicio (db st1)"] obtain st2 where
    2: "processarGrupo f dados (inicio (db st1)) = Completed st2" by blast
  have "st2 = inicio (db st1)"
    using processarGrupo_seen [OF 2] ids s by (simp add: ids_db_def inicio_def)
  with 2 have r2: "processarGrupo f dados (inicio (db st1)) = Completed (inicio (db st1))"
    by simp
  have dd: "distinct ?ids \<longrightarrow> map id_unico (novasOportunidades st1) = ?ids"
    using n by (simp add: primeiras_distinct)
  from 1 n d s dd r2 show ?thesis by blast
qed

theorem C1_idempotence_witness:
  "map id_unico (novasOportunidades (estado_de (processarGrupo FONTE_IPEA
      [JObj [(''titulo'', JStr ''Edital 01/2025''), (''prazo'', JStr ''15/12/2025'')],
       JObj [(''prazo'', JStr ''15/12/2025'')],
       JObj [(''titulo'', JStr ''Chamada 57/2025'')]]
      (inicio [])))) =
     [''IPEA-edital012025-15122025'', ''IPEA-chamada572025-0000''] \<and>
   novasOportunidades (estado_de (processarGrupo FONTE_IPEA
      [JObj [(''titulo'', JStr ''Edital 01/2025''), (''prazo'', JStr ''15/12/2025'')],
       JObj [(''prazo'', JStr ''15/12/2025'')],
       JObj [(''titulo'', JStr ''Chamada 57/2025'')]]
      (inicio (db (estado_de (processarGrupo FONTE_IPEA
         [JObj [(''titulo'', JStr ''Edital 01/2025''), (''prazo'', JStr ''15/12/2025'')],
          JObj [(''prazo'', JStr ''15/12/2025'')],
          JObj [(''titulo'', JStr ''Chamada 57/2025'')]]
         (inicio []))))))) = []"
proof -
  let ?dados = "[JObj [(''titulo'', JStr ''Edital 01/2025''), (''prazo'', JStr ''15/12/2025'')],
       JObj [(''prazo'', JStr ''15/12/2025'')],
       JObj [(''titulo'', JStr ''Chamada 57/2025'')]]"
  have c: "list_all candidato ?dados"
    by (simp add: eval_spec)
  have i: "map (identidade FONTE_IPEA) (filter valido ?dados) =
           [''IPEA-edital012025-15122025'', ''IPEA-chamada572025-0000'']"
    by (simp add: eval_spec id_ipea_edital id_ipea_chamada)
  from C1_idempotence [OF c, of FONTE_IPEA] obtain st1 where
    1: "processarGrupo FONTE_IPEA ?dados (inicio []) = Completed st1" and
    2: "map id_unico (novasOportunidades st1) =
          primeiras (map (identidade FONTE_IPEA) (filter valido ?dados))" and
    3: "processarGrupo FONTE_IPEA ?dados (inicio (db st1)) = Completed (inicio (db st1))"
    by blast
  from 2 i have 4: "map id_unico (novasOportunidades st1) =
      [''IPEA-edital012025-15122025'', ''IPEA-chamada572025-0000'']"
    by simp
  from 1 have e: "estado_de (processarGrupo FONTE_IPEA ?dados (inicio [])) = st1"
    by (simp add: estado_de_def)
  show ?thesis
    unfolding e using 3 4 by (simp add: estado_de_def inicio_def)
qed

text \<open>
  C1 as stated fails when two valid candidates have the same identity: of the titles
  \<open>Edital 01/2025\<close> and \<open>EDITAL 01/2025\<close> with the same deadline, both valid, the first run
  marks only the first as new.
\<close>

theorem C1_counterexample:
  "list_all candidato
     [JObj [(''titulo'', JStr ''Edital 01/2025''), (''prazo'', JStr ''15/12/2025'')],
      JObj [(''titulo'', JStr ''EDITAL 01/2025''), (''prazo'', JStr ''15/12/2025'')]] \<and>
   list_all valido
     [JObj [(''titulo'', JStr ''Edital 01/2025''), (''prazo'', JStr ''15/12/2025'')],
      JObj [(''titulo'', JStr ''EDITAL 01/2025''), (''prazo'', JStr ''15/12/2025'')]] \<and>
   processarGrupo FONTE_IPEA
     [JObj [(''titulo'', JStr ''Edital 01/2025''), (''prazo'', JStr ''15/12/2025'')],
      JObj [(''titulo'', JStr ''EDITAL 01/2025''), (''prazo'', JStr ''15/12/2025'')]]
     (inicio []) =
   Completed
     \<lparr>db = [\<lparr>col_id = ''IPEA-edital012025-15122025'', col_projeto = ''Edital 01/2025'',
              col_prazo = Some (JStr ''15/12/2025''), col_fonte = ''IPEA''\<rparr>],
      novasOportunidades =
        [\<lparr>id_unico = ''IPEA-edital012025-15122025'', titulo_op = ''Edital 01/2025'',
          prazo_op = Some (JStr ''15/12/2025''), fonte_nome = ''IPEA'',
          fonte_url = ''https://www.ipea.gov.br/portal/bolsas-de-pesquisa'',
          cor_op = ''#2980b9''\<rparr>]\<rparr>"
  by (simp add: eval_spec eval_loop id_ipea_edital id_ipea_edital_maiusculas)

text \<open>
  C9. In every run, no call of \<^verbatim>\<open>enviarEmailResumo\<close> or of \<^verbatim>\<open>sendMail\<close> is made
  when the list of new records is empty; every call made belongs to a run that
  completed with at least one new record, and carries the new records of that run.
\<close>

theorem C9_empty_batch:
  "(novasOportunidades (estado_de (fst (main parse env r1 r2 r3 r4 rows))) = []
      \<longrightarrow> snd (main parse env r1 r2 r3 r4 rows) = []) \<and>
   (\<forall>ev \<in> set (snd (main parse env r1 r2 r3 r4 rows)).
      \<exists>st. fst (main parse env r1 r2 r3 r4 rows) = Completed st \<and> novasOportunidades st \<noteq> [] \<and>
           (ev = Chamada_enviarEmailResumo (novasOportunidades st) \<or>
            (\<exists>m. ev = Chamada_sendMail m \<and> mail_itens m = novasOportunidades st)))"
  by (auto simp: main_def Let_def estado_de_def enviarEmailResumo_def split: run.splits if_splits)

text \<open>
  Two runs with the same answer of the model: the first finds the record, stores it
  and sends the message; the second, from the table the first left, finds nothing new.
  The parser of the two runs is \<^verbatim>\<open>JSON.parse\<close> where the value is one of the loop, as
  the values of these texts are.
\<close>

lemmas eval_latin1 = latin1_string_def latin1_member_def char_of_def bit_iff_odd

lemma main_uma_novidade:
  "main (\<lambda>t. Option.bind (JSON_parse t) latin1) \<lparr>EMAIL_USER = Some ''monitor@example.org'', EMAIL_TO = Some ''equipe@example.org''\<rparr>
     (Texto ''```json [{\"titulo\": \"Edital 01/2025\", \"prazo\": \"15/12/2025\"}] ```'')
     (Texto ''[]'') SemTexto ApiError [] =
   (Completed
      \<lparr>db = [\<lparr>col_id = ''IPEA-edital012025-15122025'', col_projeto = ''Edital 01/2025'',
               col_prazo = Some (JStr ''15/12/2025''), col_fonte = ''IPEA''\<rparr>],
       novasOportunidades =
         [\<lparr>id_unico = ''IPEA-edital012025-15122025'', titulo_op = ''Edital 01/2025'',
           prazo_op = Some (JStr ''15/12/2025''), fonte_nome = ''IPEA'',
           fonte_url = ''https://www.ipea.gov.br/portal/bolsas-de-pesquisa'',
           cor_op = ''#2980b9''\<rparr>]\<rparr>,
    [Chamada_enviarEmailResumo
       [\<lparr>id_unico = ''IPEA-edital012025-15122025'', titulo_op = ''Edital 01/2025'',
         prazo_op = Some (JStr ''15/12/2025''), fonte_nome = ''IPEA'',
         fonte_url = ''https://www.ipea.gov.br/portal/bolsas-de-pesquisa'',
         cor_op = ''#2980b9''\<rparr>],
     Chamada_sendMail
       \<lparr>mail_from = ''\"Monitor de Editais\" <monitor@example.org>'',
        mail_to = ''equipe@example.org'',
        mail_itens =
          [\<lparr>id_unico = ''IPEA-edital012025-15122025'', titulo_op = ''Edital 01/2025'',
            prazo_op = Some (JStr ''15/12/2025''), fonte_nome = ''IPEA'',
            fonte_url = ''https://www.ipea.gov.br/portal/bolsas-de-pesquisa'',
            cor_op = ''#2980b9''\<rparr>]\<rparr>])"
  by (simp add: main_def consultarGemini_def enviarEmailResumo_def env_falsy_def
      eval_extrair eval_parse eval_lex eval_latin1 eval_loop id_ipea_edital)

lemma main_sem_novidade:
  "fst (main (\<lambda>t. Option.bind (JSON_parse t) latin1) \<lparr>EMAIL_USER = Some ''monitor@example.org'', EMAIL_TO = Some ''equipe@example.org''\<rparr>
     (Texto ''```json [{\"titulo\": \"Edital 01/2025\", \"prazo\": \"15/12/2025\"}] ```'')
     (Texto ''[]'') SemTexto ApiError
     [\<lparr>col_id = ''IPEA-edital012025-15122025'', col_projeto = ''Edital 01/2025'',
       col_prazo = Some (JStr ''15/12/2025''), col_fonte = ''IPEA''\<rparr>]) =
   Completed
     \<lparr>db = [\<lparr>col_id = ''IPEA-edital012025-15122025'', col_projeto = ''Edital 01/2025'',
              col_prazo = Some (JStr ''15/12/2025''), col_fonte = ''IPEA''\<rparr>],
      novasOportunidades = []\<rparr>"
  by (simp add: main_def consultarGemini_def enviarEmailResumo_def env_falsy_def
      eval_extrair eval_parse eval_lex eval_latin1 eval_loop id_ipea_edital)

theorem C9_empty_batch_witness:
  "snd (main (\<lambda>t. Option.bind (JSON_parse t) latin1) \<lparr>EMAIL_USER = Some ''monitor@example.org'', EMAIL_TO = Some ''equipe@example.org''\<rparr>
     (Texto ''```json [{\"titulo\": \"Edital 01/2025\", \"prazo\": \"15/12/2025\"}] ```'')
     (Texto ''[]'') SemTexto ApiError
     [\<lparr>col_id = ''IPEA-edital012025-15122025'', col_projeto = ''Edital 01/2025'',
       col_prazo = Some (JStr ''15/12/2025''), col_fonte = ''IPEA''\<rparr>]) = []"
proof -
  have "novasOportunidades (estado_de (fst (main (\<lambda>t. Option.bind (JSON_parse t) latin1)
     \<lparr>EMAIL_USER = Some ''monitor@example.org'', EMAIL_TO = Some ''equipe@example.org''\<rparr>
     (Texto ''```json [{\"titulo\": \"Edital 01/2025\", \"prazo\": \"15/12/2025\"}] ```'')
     (Texto ''[]'') SemTexto ApiError
     [\<lparr>col_id = ''IPEA-edital012025-15122025'', col_projeto = ''Edital 01/2025'',
       col_prazo = Some (JStr ''15/12/2025''), col_fonte = ''IPEA''\<rparr>]))) = []"
    by (simp add: main_sem_novidade estado_de_def)
  then show ?thesis
    by (rule mp [OF C9_empty_batch [THEN conjunct1]])
qed

end
